theory Spec2Isabelle
  imports Main "HOL-Library.Monad_Syntax"
begin

text \<open>
  The GitHub platform of the code reviewer (\<open>src/platforms/github.ts\<close>): the parser of
  the diff into positions, the lookup of a position, the planner that sorts findings
  into line comments, file comments and skipped comments, and the delivery of the
  comments to the forge. Pure functions are functions; a function that talks to the forge
  takes the forge and the trace of what happened so far, and returns its result with the
  extended trace; an exception is the left summand of the result.
\<close>

section \<open>Strings\<close>

text \<open>
  A JavaScript string is modelled by its UTF-8 encoding, one \<open>char\<close> per byte: this is
  the form in which the diff text arrives and in which comment bodies leave. A line feed
  is the byte \<open>0x0A\<close>; the line terminators that the regular-expression dot refuses are
  LF, CR and the encodings of U+2028 and U+2029.
\<close>

fun startsWith :: "string \<Rightarrow> string \<Rightarrow> bool" where
  "startsWith s [] = True"
| "startsWith [] (p # ps) = False"
| "startsWith (c # s) (p # ps) = (c = p \<and> startsWith s ps)"

text \<open>\<^verbatim>\<open>diffText.split('\n')\<close>: the pieces between line feeds; the empty text gives one
  empty line, and a text ending in a line feed gives a last empty line.\<close>

fun split_nl :: "string \<Rightarrow> string list" where
  "split_nl [] = [[]]"
| "split_nl (c # cs) =
     (if c = CHR 0x0A then [] # split_nl cs
      else (case split_nl cs of [] \<Rightarrow> [[c]] | l # ls \<Rightarrow> (c # l) # ls))"

fun has_line_terminator :: "string \<Rightarrow> bool" where
  "has_line_terminator [] = False"
| "has_line_terminator (c # cs) =
     (c = CHR 0x0A \<or> c = CHR 0x0D
      \<or> (c = CHR 0xE2 \<and> (startsWith cs [CHR 0x80,
        CHR 0xA8] \<or> startsWith cs [CHR 0x80, CHR 0xA9]))
      \<or> has_line_terminator cs)"

definition is_digit :: "char \<Rightarrow> bool" where
  "is_digit c = (48 \<le> (of_char c :: nat) \<and> (of_char c :: nat) \<le> 57)"

text \<open>\<^verbatim>\<open>Number.parseInt(ds, 10)\<close> on a string of decimal digits (exact below \<open>2^53\<close>,
  which is the range of line numbers; the model keeps the exact value throughout).\<close>

definition parseInt :: "string \<Rightarrow> int" where
  "parseInt ds = foldl (\<lambda>acc c. 10 * acc + (int (of_char c) - 48)) 0 ds"

fun digit_char :: "nat \<Rightarrow> char" where
  "digit_char d =
     (if d = 0 then CHR ''0'' else if d = 1 then CHR ''1'' else if d = 2 then CHR ''2''
      else if d = 3 then CHR ''3'' else if d = 4 then CHR ''4'' else if d = 5 then CHR ''5''
      else if d = 6 then CHR ''6'' else if d = 7 then CHR ''7'' else if d = 8 then CHR ''8''
      else CHR ''9'')"

text \<open>Template interpolation \<^verbatim>\<open>${n}\<close> of an integer: its decimal digits, with a minus
  sign when negative.\<close>

fun show_nat :: "nat \<Rightarrow> string" where
  "show_nat n = (if n < 10 then [digit_char n] else show_nat (n div 10) @ [digit_char (n mod 10)])"

definition show_int :: "int \<Rightarrow> string" where
  "show_int i = (if i < 0 then CHR ''-'' # show_nat (nat (- i)) else show_nat (nat i))"

section \<open>Insertion-ordered maps\<close>

text \<open>
  A JavaScript \<open>Map\<close> iterates in insertion order, and \<open>set\<close> on a key already present
  replaces the value where the key stands. It is an association list with distinct keys:
  \<open>map_of\<close> is \<open>get\<close>, \<open>map_set\<close> is \<open>set\<close>, the list itself is \<open>entries()\<close>.
\<close>

fun map_set :: "('k \<times> 'v) list \<Rightarrow> 'k \<Rightarrow> 'v \<Rightarrow> ('k \<times> 'v) list" where
  "map_set [] k v = [(k, v)]"
| "map_set ((k', v') # m) k v = (if k' = k then (k, v) # m else (k', v') # map_set m k v)"

type_synonym file_map = "(int \<times> int) list"
type_synonym position_map = "(string \<times> file_map) list"

section \<open>parseDiffPositionMap\<close>

text \<open>The match of \<^verbatim>\<open>/b\/(.+)$/\<close>: at the leftmost \<open>b/\<close> that is followed, up to the end
  of the line, by at least one character and no line terminator; the group is that rest.\<close>

fun match_b_path :: "string \<Rightarrow> string option" where
  "match_b_path (c1 # c2 # rest) =
     (if c1 = CHR ''b'' \<and> c2 = CHR ''/'' \<and> rest \<noteq> [] \<and> \<not> has_line_terminator rest
      then Some rest else match_b_path (c2 # rest))"
| "match_b_path _ = None"

definition expect :: "string \<Rightarrow> string \<Rightarrow> string option" where
  "expect lit s = (if startsWith s lit then Some (drop (length lit) s) else None)"

definition digits1 :: "string \<Rightarrow> (string \<times> string) option" where
  "digits1 s = (if takeWhile is_digit s = [] then None
                else Some (takeWhile is_digit s, dropWhile is_digit s))"

text \<open>\<^verbatim>\<open>@@ -\d+,\d+ \+(\d+),\d+ @@\<close> tried at the start of \<open>s\<close>. Each \<^verbatim>\<open>\d+\<close> is followed
  by a character that is no digit, so the greedy match takes the whole run of digits and
  no backtracking can succeed where this fails.\<close>

definition match_hunk_here :: "string \<Rightarrow> string option" where
  "match_hunk_here s = do {
     r1 \<leftarrow> expect ''@@ -'' s;
     (_, r2) \<leftarrow> digits1 r1;
     r3 \<leftarrow> expect '','' r2;
     (_, r4) \<leftarrow> digits1 r3;
     r5 \<leftarrow> expect '' +'' r4;
     (d, r6) \<leftarrow> digits1 r5;
     r7 \<leftarrow> expect '','' r6;
     (_, r8) \<leftarrow> digits1 r7;
     _ \<leftarrow> expect '' @@'' r8;
     Some d
   }"

text \<open>The pattern is not anchored: \<open>match\<close> returns the leftmost position where it fits.\<close>

fun match_hunk :: "string \<Rightarrow> string option" where
  "match_hunk [] = match_hunk_here []"
| "match_hunk (c # cs) =
     (case match_hunk_here (c # cs) of Some d \<Rightarrow> Some d | None \<Rightarrow> match_hunk cs)"

record parse_state =
  positionMap :: position_map
  currentFile :: string
  currentPosition :: int
  currentNewLine :: int
  inHunk :: bool

definition parse_init :: parse_state where
  "parse_init = \<lparr>positionMap = [], currentFile = [], currentPosition = 0,
                 currentNewLine = 0, inHunk = False\<rparr>"

text \<open>\<^verbatim>\<open>fileMap.set(currentNewLine, currentPosition)\<close> on the map object stored under
  \<open>currentFile\<close>, when there is one.\<close>

definition record_position :: "position_map \<Rightarrow> string \<Rightarrow> int \<Rightarrow> int \<Rightarrow> position_map" where
  "record_position pm f n p =
     (case map_of pm f of None \<Rightarrow> pm | Some fileMap \<Rightarrow> map_set pm f (map_set fileMap n p))"

text \<open>The body of the loop over the lines, one branch per \<open>if\<close> of the source, in its order.\<close>

definition parse_line :: "parse_state \<Rightarrow> string \<Rightarrow> parse_state" where
  "parse_line s line =
     (if startsWith line ''diff --git'' then
        (case match_b_path line of
           Some f \<Rightarrow> s\<lparr>currentFile := f, currentPosition := 0, currentNewLine := 0,
                       inHunk := False, positionMap := map_set (positionMap s) f []\<rparr>
         | None \<Rightarrow> s)
      else if startsWith line ''---'' \<or> startsWith line ''+++'' then s
      else if startsWith line ''@@'' then
        (case match_hunk line of
           Some d \<Rightarrow> s\<lparr>currentNewLine := parseInt d - 1, currentPosition := 0, inHunk := True\<rparr>
         | None \<Rightarrow> s)
      else if inHunk s \<and> startsWith line ''+'' \<and> \<not> startsWith line ''+++'' then
        s\<lparr>currentPosition := currentPosition s + 1,
          currentNewLine := currentNewLine s + 1,
          positionMap := record_position (positionMap s) (currentFile s)
                           (currentNewLine s + 1) (currentPosition s + 1)\<rparr>
      else if inHunk s \<and> startsWith line ''-'' \<and> \<not> startsWith line ''---'' then s
      else if inHunk s then
        s\<lparr>currentNewLine := currentNewLine s + 1, currentPosition := 0\<rparr>
      else s)"

definition parse_lines :: "string list \<Rightarrow> parse_state" where
  "parse_lines ls = foldl parse_line parse_init ls"

definition parseDiffPositionMap :: "string \<Rightarrow> position_map" where
  "parseDiffPositionMap diffText = positionMap (parse_lines (split_nl diffText))"

section \<open>findPositionInMap\<close>

text \<open>One turn of the scan over \<open>fileMap.entries()\<close>; the second component is
  \<open>minDistance\<close>, with \<open>None\<close> for \<open>Infinity\<close>.\<close>

definition closest_step :: "int \<Rightarrow> int option \<times> int option \<Rightarrow> int \<times> int \<Rightarrow> int option \<times> int option" where
  "closest_step lineNumber acc entry =
     (let distance = \<bar>fst entry - lineNumber\<bar> in
      if (case snd acc of None \<Rightarrow> True | Some m \<Rightarrow> distance < m) \<and> distance \<le> 3
      then (Some (snd entry), Some distance) else acc)"

definition findPositionInMap :: "string \<Rightarrow> int \<Rightarrow> position_map \<Rightarrow> int option" where
  "findPositionInMap filePath lineNumber pm =
     (case map_of pm filePath of
        None \<Rightarrow> None
      | Some fileMap \<Rightarrow>
          (case map_of fileMap lineNumber of
             Some exactPosition \<Rightarrow> Some exactPosition
           | None \<Rightarrow> fst (foldl (closest_step lineNumber) (None, None) fileMap)))"

section \<open>Comment texts\<close>

text \<open>
  The message templates of the source, as UTF-8 bytes: the ASCII part is written as text,
  every other character by its bytes (and so are the backquote and the line feed). Each
  literal is given before its constant, with the characters outside ASCII in the escape
  notation of JavaScript.
\<close>

datatype severity = SevError | SevWarning | SevInfo

text \<open>An element of \<^verbatim>\<open>ReviewResult['issues']\<close>, with the fields the platform reads.
  An absent optional field is \<open>None\<close>.\<close>

record issue =
  i_line :: "int option"
  i_severity :: severity
  i_message :: string
  i_suggestion :: "string option"
  i_code :: "string option"

record review_result =
  r_file :: string
  r_issues :: "issue list"

text \<open>JavaScript truthiness of an optional number and of an optional string.\<close>

definition truthy_line :: "int option \<Rightarrow> bool" where
  "truthy_line l = (case l of None \<Rightarrow> False | Some n \<Rightarrow> n \<noteq> 0)"

definition truthy_string :: "string option \<Rightarrow> bool" where
  "truthy_string s = (case s of None \<Rightarrow> False | Some t \<Rightarrow> t \<noteq> [])"

definition string_of :: "string option \<Rightarrow> string" where
  "string_of s = (case s of None \<Rightarrow> [] | Some t \<Rightarrow> t)"

fun join_with :: "string \<Rightarrow> string list \<Rightarrow> string" where
  "join_with sep [] = []"
| "join_with sep [x] = x"
| "join_with sep (x # y # ys) = x @ sep @ join_with sep (y # ys)"

text \<open>The literal \<^verbatim>\<open>\n\<close>.\<close>

definition newline :: "string" where
  "newline =
     [CHR 0x0A]"

text \<open>The three severity marks: \<^verbatim>\<open>\u{274C}\<close>, \<^verbatim>\<open>\u{26A0}\u{FE0F}\<close> and
  \<^verbatim>\<open>\u{2139}\u{FE0F}\<close>.\<close>

fun severity_emoji :: "severity \<Rightarrow> string" where
  "severity_emoji SevError = [CHR 0xE2, CHR 0x9D, CHR 0x8C]"
| "severity_emoji SevWarning = [CHR 0xE2, CHR 0x9A, CHR 0xA0, CHR 0xEF, CHR 0xB8, CHR 0x8F]"
| "severity_emoji SevInfo = [CHR 0xE2, CHR 0x84, CHR 0xB9, CHR 0xEF, CHR 0xB8, CHR 0x8F]"

text \<open>The literal \<^verbatim>\<open>\u{1F4A1} \u{5EFA}\u{8BAE}: \<close>.\<close>

definition suggestion_label :: "string" where
  "suggestion_label =
     [CHR 0xF0, CHR 0x9F, CHR 0x92, CHR 0xA1] @ '' '' @ [CHR 0xE5, CHR 0xBB, CHR 0xBA, CHR 0xE8,
       CHR 0xAE, CHR 0xAE] @ '': ''"

text \<open>The literal \<^verbatim>\<open>\u{793A}\u{4F8B}\u{4EE3}\u{7801}:\<close>.\<close>

definition example_code_label :: "string" where
  "example_code_label =
     [CHR 0xE7, CHR 0xA4, CHR 0xBA, CHR 0xE4, CHR 0xBE, CHR 0x8B, CHR 0xE4, CHR 0xBB, CHR 0xA3,
       CHR 0xE7, CHR 0xA0, CHR 0x81] @ '':''"

text \<open>The literal \<^verbatim>\<open>```\<close>.\<close>

definition code_fence :: "string" where
  "code_fence =
     [CHR 0x60, CHR 0x60, CHR 0x60]"

definition formatIssueComment :: "issue \<Rightarrow> string" where
  "formatIssueComment issue =
     severity_emoji (i_severity issue) @ '' **'' @ i_message issue @ ''**'' @ newline @ newline
     @ (if truthy_string (i_suggestion issue)
        then suggestion_label @ string_of (i_suggestion issue) @ newline @ newline else [])
     @ (if truthy_string (i_code issue)
        then example_code_label @ newline @ code_fence @ newline @ string_of (i_code issue)
             @ newline @ code_fence @ newline
        else [])"

text \<open>The three severity words: \<^verbatim>\<open>\u{9519}\u{8BEF}\<close>, \<^verbatim>\<open>\u{8B66}\u{544A}\<close> and
  \<^verbatim>\<open>\u{4FE1}\u{606F}\<close>.\<close>

fun severity_name :: "severity \<Rightarrow> string" where
  "severity_name SevError = [CHR 0xE9, CHR 0x94, CHR 0x99, CHR 0xE8, CHR 0xAF, CHR 0xAF]"
| "severity_name SevWarning = [CHR 0xE8, CHR 0xAD, CHR 0xA6, CHR 0xE5, CHR 0x91, CHR 0x8A]"
| "severity_name SevInfo = [CHR 0xE4, CHR 0xBF, CHR 0xA1, CHR 0xE6, CHR 0x81, CHR 0xAF]"

text \<open>The literal \<^verbatim>\<open>\u{4E2A}\<close>.\<close>

definition count_word :: "string" where
  "count_word =
     [CHR 0xE4, CHR 0xB8, CHR 0xAA]"

definition severity_count :: "issue list \<Rightarrow> severity \<Rightarrow> nat" where
  "severity_count issues sev = length (filter (\<lambda>i. i_severity i = sev) issues)"

definition severity_text :: "issue list \<Rightarrow> string" where
  "severity_text issues =
     join_with '', ''
       (map (\<lambda>sev. severity_emoji sev @ '' '' @ show_nat (severity_count issues sev)
                     @ count_word @ severity_name sev)
            (filter (\<lambda>sev. severity_count issues sev > 0) [SevError, SevWarning, SevInfo]))"

text \<open>The literal \<^verbatim>\<open>## \u{1F4C4} \<close>.\<close>

definition page_heading :: "string" where
  "page_heading =
     ''## '' @ [CHR 0xF0, CHR 0x9F, CHR 0x93, CHR 0x84] @ '' ''"

text \<open>The \<open>forEach\<close> of \<open>formatFileLevelComment\<close>: one block per issue, a rule between
  two blocks.\<close>

fun issue_blocks :: "issue list \<Rightarrow> string" where
  "issue_blocks [] = []"
| "issue_blocks (issue # rest) =
     severity_emoji (i_severity issue) @ '' **'' @ i_message issue @ ''**'' @ newline @ newline
     @ (if truthy_string (i_suggestion issue)
        then suggestion_label @ string_of (i_suggestion issue) @ newline @ newline else [])
     @ (if truthy_string (i_code issue)
        then code_fence @ newline @ string_of (i_code issue) @ newline @ code_fence
             @ newline @ newline
        else [])
     @ (if rest \<noteq> [] then ''---'' @ newline @ newline else [])
     @ issue_blocks rest"

definition formatFileLevelComment :: "string \<Rightarrow> issue list \<Rightarrow> string" where
  "formatFileLevelComment filePath issues =
     page_heading @ filePath @ '' ('' @ severity_text issues @ '')'' @ newline @ newline
     @ issue_blocks issues"

text \<open>The words around a line number: an ordinal prefix and the word for line.\<close>




text \<open>The literal \<^verbatim>\<open>- \u{7B2C} \<close>.\<close>

definition skipped_item_open :: "string" where
  "skipped_item_open =
     ''- '' @ [CHR 0xE7, CHR 0xAC, CHR 0xAC] @ '' ''"

text \<open>The literal \<^verbatim>\<open> \u{884C}: \<close>.\<close>

definition skipped_item_mid :: "string" where
  "skipped_item_mid =
     '' '' @ [CHR 0xE8, CHR 0xA1, CHR 0x8C] @ '': ''"

text \<open>The literal \<^verbatim>\<open>## \u{26A0}\u{FE0F} \<close>.\<close>

definition skipped_heading :: "string" where
  "skipped_heading =
     ''## '' @ [CHR 0xE2, CHR 0x9A, CHR 0xA0, CHR 0xEF, CHR 0xB8, CHR 0x8F] @ '' ''"

text \<open>The literal \<^verbatim>\<open> - \u{884C}\u{8BC4}\u{8BBA}\u{4F4D}\u{7F6E}\u{95EE}\u{9898}\<close>.\<close>

definition skipped_title :: "string" where
  "skipped_title =
     '' - '' @ [CHR 0xE8, CHR 0xA1, CHR 0x8C, CHR 0xE8, CHR 0xAF, CHR 0x84, CHR 0xE8, CHR 0xAE,
       CHR 0xBA, CHR 0xE4, CHR 0xBD, CHR 0x8D, CHR 0xE7, CHR 0xBD, CHR 0xAE, CHR 0xE9, CHR 0x97,
       CHR 0xAE, CHR 0xE9, CHR 0xA2, CHR 0x98]"

text \<open>The literal \<^verbatim>\<open>\u{4EE5}\u{4E0B}\u{8BC4}\u{8BBA}\u{56E0}\u{65E0}\u{6CD5}\u{627E}\u{5230}\u{51C6}\u{786E}\u{7684}diff\u{4F4D}\u{7F6E}\u{FF0C}\u{5728}\u{6B64}\u{7EDF}\u{4E00}\u{5217}\u{51FA}\u{FF1A}\<close>.\<close>

definition skipped_intro :: "string" where
  "skipped_intro =
     [CHR 0xE4, CHR 0xBB, CHR 0xA5, CHR 0xE4, CHR 0xB8, CHR 0x8B, CHR 0xE8, CHR 0xAF, CHR 0x84,
       CHR 0xE8, CHR 0xAE, CHR 0xBA, CHR 0xE5, CHR 0x9B, CHR 0xA0, CHR 0xE6, CHR 0x97, CHR 0xA0,
       CHR 0xE6, CHR 0xB3, CHR 0x95, CHR 0xE6, CHR 0x89, CHR 0xBE, CHR 0xE5, CHR 0x88, CHR 0xB0,
       CHR 0xE5, CHR 0x87, CHR 0x86, CHR 0xE7, CHR 0xA1, CHR 0xAE, CHR 0xE7, CHR 0x9A, CHR 0x84] @
       ''diff'' @ [CHR 0xE4, CHR 0xBD, CHR 0x8D, CHR 0xE7, CHR 0xBD, CHR 0xAE, CHR 0xEF, CHR 0xBC,
       CHR 0x8C, CHR 0xE5, CHR 0x9C, CHR 0xA8, CHR 0xE6, CHR 0xAD, CHR 0xA4, CHR 0xE7, CHR 0xBB,
       CHR 0x9F, CHR 0xE4, CHR 0xB8, CHR 0x80, CHR 0xE5, CHR 0x88, CHR 0x97, CHR 0xE5, CHR 0x87,
       CHR 0xBA, CHR 0xEF, CHR 0xBC, CHR 0x9A]"

text \<open>The body built per file by \<open>handleSkippedComments\<close>.\<close>

definition skippedCommentText :: "string \<Rightarrow> (int \<times> issue) list \<Rightarrow> string" where
  "skippedCommentText filePath items =
     skipped_heading @ filePath @ skipped_title @ newline @ newline
     @ skipped_intro @ newline @ newline
     @ join_with newline
         (map (\<lambda>item. skipped_item_open @ show_int (fst item) @ skipped_item_mid
                        @ i_message (snd item)) items)"

text \<open>The literal \<^verbatim>\<open>## \u{1F4CA} AI\u{4EE3}\u{7801}\u{5BA1}\u{67E5}\u{5B8C}\u{6210}\<close>.\<close>

definition summary_heading :: "string" where
  "summary_heading =
     ''## '' @ [CHR 0xF0, CHR 0x9F, CHR 0x93, CHR 0x8A] @ '' AI'' @ [CHR 0xE4, CHR 0xBB, CHR 0xA3,
       CHR 0xE7, CHR 0xA0, CHR 0x81, CHR 0xE5, CHR 0xAE, CHR 0xA1, CHR 0xE6, CHR 0x9F, CHR 0xA5,
       CHR 0xE5, CHR 0xAE, CHR 0x8C, CHR 0xE6, CHR 0x88, CHR 0x90]"

text \<open>The literal \<^verbatim>\<open>**\u{7EDF}\u{8BA1}\u{4FE1}\u{606F}**\<close>.\<close>

definition summary_statistics :: "string" where
  "summary_statistics =
     ''**'' @ [CHR 0xE7, CHR 0xBB, CHR 0x9F, CHR 0xE8, CHR 0xAE, CHR 0xA1, CHR 0xE4, CHR 0xBF,
       CHR 0xA1, CHR 0xE6, CHR 0x81, CHR 0xAF] @ ''**''"

text \<open>The literal \<^verbatim>\<open>- \u{5BA1}\u{67E5}\u{6587}\u{4EF6}\u{6570}: \<close>.\<close>

definition summary_files :: "string" where
  "summary_files =
     ''- '' @ [CHR 0xE5, CHR 0xAE, CHR 0xA1, CHR 0xE6, CHR 0x9F, CHR 0xA5, CHR 0xE6, CHR 0x96,
       CHR 0x87, CHR 0xE4, CHR 0xBB, CHR 0xB6, CHR 0xE6, CHR 0x95, CHR 0xB0] @ '': ''"

text \<open>The literal \<^verbatim>\<open>- \u{53D1}\u{73B0}\u{95EE}\u{9898}\u{6570}: \<close>.\<close>

definition summary_issues :: "string" where
  "summary_issues =
     ''- '' @ [CHR 0xE5, CHR 0x8F, CHR 0x91, CHR 0xE7, CHR 0x8E, CHR 0xB0, CHR 0xE9, CHR 0x97,
       CHR 0xAE, CHR 0xE9, CHR 0xA2, CHR 0x98, CHR 0xE6, CHR 0x95, CHR 0xB0] @ '': ''"

text \<open>The literal \<^verbatim>\<open>- \u{884C}\u{8BC4}\u{8BBA}\u{6570}: \<close>.\<close>

definition summary_line_comments :: "string" where
  "summary_line_comments =
     ''- '' @ [CHR 0xE8, CHR 0xA1, CHR 0x8C, CHR 0xE8, CHR 0xAF, CHR 0x84, CHR 0xE8, CHR 0xAE,
       CHR 0xBA, CHR 0xE6, CHR 0x95, CHR 0xB0] @ '': ''"

text \<open>The literal \<^verbatim>\<open>- \u{6587}\u{4EF6}\u{8BC4}\u{8BBA}\u{6570}: \<close>.\<close>

definition summary_file_comments :: "string" where
  "summary_file_comments =
     ''- '' @ [CHR 0xE6, CHR 0x96, CHR 0x87, CHR 0xE4, CHR 0xBB, CHR 0xB6, CHR 0xE8, CHR 0xAF,
       CHR 0x84, CHR 0xE8, CHR 0xAE, CHR 0xBA, CHR 0xE6, CHR 0x95, CHR 0xB0] @ '': ''"

text \<open>The literal \<^verbatim>\<open>- \u{8DF3}\u{8FC7}\u{8BC4}\u{8BBA}\u{6570}: \<close>.\<close>

definition summary_skipped :: "string" where
  "summary_skipped =
     ''- '' @ [CHR 0xE8, CHR 0xB7, CHR 0xB3, CHR 0xE8, CHR 0xBF, CHR 0x87, CHR 0xE8, CHR 0xAF,
       CHR 0x84, CHR 0xE8, CHR 0xAE, CHR 0xBA, CHR 0xE6, CHR 0x95, CHR 0xB0] @ '': ''"

text \<open>The literal \<^verbatim>\<open>**\u{5BA1}\u{67E5}\u{7ED3}\u{679C}\u{5DF2}\u{63D0}\u{4EA4}\u{FF0C}\u{8BF7}\u{67E5}\u{770B}\u{4E0A}\u{9762}\u{7684}\u{8BE6}\u{7EC6}\u{8BC4}\u{8BBA}\u{3002}**\<close>.\<close>

definition summary_closing :: "string" where
  "summary_closing =
     ''**'' @ [CHR 0xE5, CHR 0xAE, CHR 0xA1, CHR 0xE6, CHR 0x9F, CHR 0xA5, CHR 0xE7, CHR 0xBB,
       CHR 0x93, CHR 0xE6, CHR 0x9E, CHR 0x9C, CHR 0xE5, CHR 0xB7, CHR 0xB2, CHR 0xE6, CHR 0x8F,
       CHR 0x90, CHR 0xE4, CHR 0xBA, CHR 0xA4, CHR 0xEF, CHR 0xBC, CHR 0x8C, CHR 0xE8, CHR 0xAF,
       CHR 0xB7, CHR 0xE6, CHR 0x9F, CHR 0xA5, CHR 0xE7, CHR 0x9C, CHR 0x8B, CHR 0xE4, CHR 0xB8,
       CHR 0x8A, CHR 0xE9, CHR 0x9D, CHR 0xA2, CHR 0xE7, CHR 0x9A, CHR 0x84, CHR 0xE8, CHR 0xAF,
       CHR 0xA6, CHR 0xE7, CHR 0xBB, CHR 0x86, CHR 0xE8, CHR 0xAF, CHR 0x84, CHR 0xE8, CHR 0xAE,
       CHR 0xBA, CHR 0xE3, CHR 0x80, CHR 0x82] @ ''**''"

text \<open>The body built by \<open>submitFinalSummary\<close> from its four numbers and the number of
  findings.\<close>

definition finalSummaryText :: "nat \<Rightarrow> nat \<Rightarrow> nat \<Rightarrow> nat \<Rightarrow> nat \<Rightarrow> string" where
  "finalSummaryText totalFiles totalIssues lineCommentCount fileCommentCount skippedCount =
     summary_heading @ newline @ newline
     @ summary_statistics @ newline
     @ summary_files @ show_nat totalFiles @ newline
     @ summary_issues @ show_nat totalIssues @ newline
     @ summary_line_comments @ show_nat lineCommentCount @ newline
     @ summary_file_comments @ show_nat fileCommentCount @ newline
     @ summary_skipped @ show_nat skippedCount @ newline @ newline
     @ summary_closing"

section \<open>prepareComments\<close>

record line_comment =
  c_path :: string
  c_position :: int
  c_body :: string

record skipped_comment =
  s_file :: string
  s_line :: int
  s_issue :: issue

text \<open>The three collections that \<open>prepareComments\<close> fills. \<open>fileComments\<close> is the
  \<open>fileCommentsMap\<close> of the source; the returned array is its entries, in order.\<close>

record comment_plan =
  lineComments :: "line_comment list"
  fileComments :: "(string \<times> issue list) list"
  skippedComments :: "skipped_comment list"

definition empty_plan :: comment_plan where
  "empty_plan = \<lparr>lineComments = [], fileComments = [], skippedComments = []\<rparr>"

text \<open>The body of the loop over \<open>lineIssues\<close>. Every issue of that list has a truthy line
  number; the branch for an absent one is never taken.\<close>

definition place_issue :: "position_map \<Rightarrow> string \<Rightarrow> comment_plan \<Rightarrow> issue \<Rightarrow> comment_plan" where
  "place_issue pm file acc issue =
     (case i_line issue of
        None \<Rightarrow> acc
      | Some l \<Rightarrow>
          (case findPositionInMap file l pm of
             Some p \<Rightarrow>
               acc\<lparr>lineComments := lineComments acc
                      @ [\<lparr>c_path = file, c_position = p, c_body = formatIssueComment issue\<rparr>]\<rparr>
           | None \<Rightarrow>
               acc\<lparr>skippedComments := skippedComments acc
                      @ [\<lparr>s_file = file, s_line = l, s_issue = issue\<rparr>]\<rparr>))"

text \<open>The body of the loop over \<open>results\<close>.\<close>

definition prepare_result :: "position_map \<Rightarrow> comment_plan \<Rightarrow> review_result \<Rightarrow> comment_plan" where
  "prepare_result pm acc result =
     (let lineIssues = filter (\<lambda>i. truthy_line (i_line i)) (r_issues result);
          generalIssues = filter (\<lambda>i. \<not> truthy_line (i_line i)) (r_issues result);
          acc1 = foldl (place_issue pm (r_file result)) acc lineIssues
      in if length generalIssues > 0
         then acc1\<lparr>fileComments := map_set (fileComments acc1) (r_file result) generalIssues\<rparr>
         else acc1)"

definition prepareComments :: "review_result list \<Rightarrow> position_map \<Rightarrow> comment_plan" where
  "prepareComments results pm = foldl (prepare_result pm) empty_plan results"

section \<open>Requests, responses and the trace of a run\<close>

text \<open>
  The four requests the delivery code sends: the pull request read as JSON, the same
  resource read as diff text, a review carrying a commit and line comments (its event is
  always \<open>COMMENT\<close>), and a top-level comment on the pull request.
\<close>

datatype request =
    GetPullJson
  | GetPullDiff
  | PostReview string "line_comment list"
  | PostIssueComment string

text \<open>\<open>fetch\<close> resolves to a response (status and body text) or rejects. Reading the
  body of a response does not fail in this model.\<close>

datatype outcome = Response nat string | Throws

text \<open>The function of the source that holds the \<open>fetch\<close> call.\<close>

datatype site =
    At_submitReviewComment
  | At_submitReviewSummary
  | At_getPullRequestDiff
  | At_getHeadCommitSha
  | At_submitLineCommentsInBatches
  | At_submitCommentsIndividually

datatype level = Warn | Err

text \<open>
  What a run does, in order: a request with its outcome, a pause in milliseconds, a
  warning or an error written to the log, and the tally \<open>successCount\<close>/\<open>failCount\<close>
  that \<open>submitLineCommentsInBatches\<close> writes when it ends. The other \<open>debug\<close>, \<open>info\<close>
  and \<open>success\<close> lines of the log carry nothing the delivery depends on and are left out.
\<close>

datatype event =
    Fetch site request outcome
  | Sleep nat
  | Log level
  | Tally nat nat

text \<open>
  The forge: its answer to a request may depend on everything that happened before.
  \<open>head_sha\<close> reads \<open>head.sha\<close> out of a response body; \<open>None\<close> stands for a body
  from which no commit can be read (\<open>json()\<close> or the field access throws).
\<close>

record world =
  respond :: "event list \<Rightarrow> request \<Rightarrow> outcome"
  head_sha :: "string \<Rightarrow> string option"

datatype error = ApiError nat string | NetworkError | JsonError

definition ok :: "nat \<Rightarrow> bool" where
  "ok status = (200 \<le> status \<and> status \<le> 299)"

definition fetch :: "world \<Rightarrow> site \<Rightarrow> request \<Rightarrow> event list \<Rightarrow> outcome \<times> event list" where
  "fetch w st rq tr = (let out = respond w tr rq in (out, tr @ [Fetch st rq out]))"

section \<open>The single requests\<close>

definition getPullRequestDiff :: "world \<Rightarrow> event list \<Rightarrow> (error + string) \<times> event list" where
  "getPullRequestDiff w tr =
     (case fetch w At_getPullRequestDiff GetPullDiff tr of
        (Throws, tr1) \<Rightarrow> (Inl NetworkError, tr1)
      | (Response status text, tr1) \<Rightarrow>
          if \<not> ok status then (Inl (ApiError status text), tr1) else (Inr text, tr1))"

definition getHeadCommitSha :: "world \<Rightarrow> event list \<Rightarrow> (error + string) \<times> event list" where
  "getHeadCommitSha w tr =
     (case fetch w At_getHeadCommitSha GetPullJson tr of
        (Throws, tr1) \<Rightarrow> (Inl NetworkError, tr1)
      | (Response status text, tr1) \<Rightarrow>
          if \<not> ok status then (Inl (ApiError status text), tr1)
          else (case head_sha w text of
                  None \<Rightarrow> (Inl JsonError, tr1)
                | Some sha \<Rightarrow> (Inr sha, tr1)))"

text \<open>\<open>submitReviewSummary\<close> posts a top-level comment; a rejection becomes an exception,
  and its own handler logs every exception and throws it again.\<close>

definition submitReviewSummary :: "world \<Rightarrow> string \<Rightarrow> event list \<Rightarrow> (error + unit) \<times> event list" where
  "submitReviewSummary w summary tr =
     (case fetch w At_submitReviewSummary (PostIssueComment summary) tr of
        (Throws, tr1) \<Rightarrow> (Inl NetworkError, tr1 @ [Log Err])
      | (Response status text, tr1) \<Rightarrow>
          if \<not> ok status then (Inl (ApiError status text), tr1 @ [Log Err])
          else (Inr (), tr1))"



section \<open>submitReviewComment\<close>




section \<open>The batch pipeline\<close>

text \<open>\<open>submitCommentsIndividually\<close>: one review per comment. The pause follows an answer,
  accepted or not; an exception skips it. Nothing leaves the loop.\<close>

fun submitCommentsIndividually :: "world \<Rightarrow> line_comment list \<Rightarrow> string \<Rightarrow> event list \<Rightarrow> event list" where
  "submitCommentsIndividually w [] commitId tr = tr"
| "submitCommentsIndividually w (comment # rest) commitId tr =
     (case fetch w At_submitCommentsIndividually (PostReview commitId [comment]) tr of
        (Throws, tr1) \<Rightarrow> submitCommentsIndividually w rest commitId (tr1 @ [Log Warn])
      | (Response status text, tr1) \<Rightarrow>
          submitCommentsIndividually w rest commitId
            ((if \<not> ok status then tr1 @ [Log Warn] else tr1) @ [Sleep 500]))"

definition batchSize :: nat where
  "batchSize = 10"

text \<open>The \<open>try\<close> statement inside the loop of \<open>submitLineCommentsInBatches\<close>, on the
  counters \<open>successCount\<close> and \<open>failCount\<close>.\<close>

definition submit_batch ::
  "world \<Rightarrow> line_comment list \<Rightarrow> string \<Rightarrow> nat \<times> nat \<times> event list \<Rightarrow> nat \<times> nat \<times> event list" where
  "submit_batch w batch commitId st =
     (case st of (successCount, failCount, tr) \<Rightarrow>
        (case fetch w At_submitLineCommentsInBatches (PostReview commitId batch) tr of
           (Throws, tr1) \<Rightarrow> (successCount, failCount + length batch, tr1 @ [Log Warn])
         | (Response status text, tr1) \<Rightarrow>
             if \<not> ok status then
               (successCount, failCount + length batch,
                if status = 422 then submitCommentsIndividually w batch commitId (tr1 @ [Log Warn])
                else tr1 @ [Log Warn])
             else (successCount + length batch, failCount, tr1)))"

text \<open>The loop \<^verbatim>\<open>for (let i = 0; i < comments.length; i += batchSize)\<close>, entered at
  \<open>i\<close>; \<open>slice(i, i + batchSize)\<close> is \<open>take batchSize (drop i comments)\<close>.\<close>

function batches_from ::
  "world \<Rightarrow> line_comment list \<Rightarrow> string \<Rightarrow> nat \<Rightarrow> nat \<times> nat \<times> event list \<Rightarrow> nat \<times> nat \<times> event list" where
  "batches_from w comments commitId i st =
     (if i < length comments then
        (case submit_batch w (take batchSize (drop i comments)) commitId st of
           (successCount, failCount, tr1) \<Rightarrow>
             batches_from w comments commitId (i + batchSize)
               (successCount, failCount,
                if i + batchSize < length comments then tr1 @ [Sleep 1500] else tr1))
      else st)"
  by pat_completeness auto
termination
  by (relation "measure (\<lambda>(w, comments, commitId, i, st). length comments - i)")
     (auto simp: batchSize_def)

definition submitLineCommentsInBatches :: "world \<Rightarrow> line_comment list \<Rightarrow> string \<Rightarrow> event list \<Rightarrow> event list" where
  "submitLineCommentsInBatches w comments commitId tr =
     (case batches_from w comments commitId 0 (0, 0, tr) of
        (successCount, failCount, tr1) \<Rightarrow> tr1 @ [Tally successCount failCount])"

text \<open>\<open>submitFileComments\<close>: the exception of a rejected comment leaves the loop.\<close>

fun submitFileComments :: "world \<Rightarrow> (string \<times> issue list) list \<Rightarrow> event list \<Rightarrow> (error + unit) \<times> event list" where
  "submitFileComments w [] tr = (Inr (), tr)"
| "submitFileComments w ((file, issues) # rest) tr =
     (case submitReviewSummary w (formatFileLevelComment file issues) tr of
        (Inl e, tr1) \<Rightarrow> (Inl e, tr1)
      | (Inr u, tr1) \<Rightarrow> submitFileComments w rest (tr1 @ [Sleep 1000]))"

text \<open>The grouping of \<open>handleSkippedComments\<close>: a file enters \<open>commentsByFile\<close> with an
  empty list when first seen, and every comment is pushed onto its file's list.\<close>

definition group_skipped :: "skipped_comment list \<Rightarrow> (string \<times> (int \<times> issue) list) list" where
  "group_skipped skipped =
     foldl (\<lambda>m c. map_set m (s_file c)
                     ((case map_of m (s_file c) of None \<Rightarrow> [] | Some items \<Rightarrow> items)
                      @ [(s_line c, s_issue c)]))
           [] skipped"

fun submit_skipped_groups ::
  "world \<Rightarrow> (string \<times> (int \<times> issue) list) list \<Rightarrow> event list \<Rightarrow> (error + unit) \<times> event list" where
  "submit_skipped_groups w [] tr = (Inr (), tr)"
| "submit_skipped_groups w ((filePath, items) # rest) tr =
     (case submitReviewSummary w (skippedCommentText filePath items) tr of
        (Inl e, tr1) \<Rightarrow> (Inl e, tr1)
      | (Inr u, tr1) \<Rightarrow> submit_skipped_groups w rest (tr1 @ [Sleep 1000]))"

definition handleSkippedComments :: "world \<Rightarrow> skipped_comment list \<Rightarrow> event list \<Rightarrow> (error + unit) \<times> event list" where
  "handleSkippedComments w skipped tr =
     (if length skipped = 0 then (Inr (), tr)
      else submit_skipped_groups w (group_skipped skipped) (tr @ [Log Warn]))"

definition total_issues :: "review_result list \<Rightarrow> nat" where
  "total_issues results = foldl (\<lambda>sum r. sum + length (r_issues r)) 0 results"

definition submitFinalSummary ::
  "world \<Rightarrow> review_result list \<Rightarrow> nat \<Rightarrow> nat \<Rightarrow> nat \<Rightarrow> event list \<Rightarrow> (error + unit) \<times> event list" where
  "submitFinalSummary w results lineCommentCount fileCommentCount skippedCount tr =
     submitReviewSummary w
       (finalSummaryText (length results) (total_issues results)
          lineCommentCount fileCommentCount skippedCount) tr"

text \<open>Steps 5 to 8 of \<open>submitBatchReviewComments\<close>, on the plan and the commit.\<close>

definition deliver_plan ::
  "world \<Rightarrow> review_result list \<Rightarrow> comment_plan \<Rightarrow> string \<Rightarrow> event list \<Rightarrow> (error + unit) \<times> event list" where
  "deliver_plan w results plan commitId tr =
     (let tr1 = (if length (lineComments plan) > 0
                 then submitLineCommentsInBatches w (lineComments plan) commitId tr
                 else tr @ [Log Warn])
      in case (if length (fileComments plan) > 0
               then submitFileComments w (fileComments plan) tr1 else (Inr (), tr1)) of
           (Inl e, tr2) \<Rightarrow> (Inl e, tr2)
         | (Inr u, tr2) \<Rightarrow>
             (case (if length (skippedComments plan) > 0
                    then handleSkippedComments w (skippedComments plan) tr2 else (Inr (), tr2)) of
                (Inl e, tr3) \<Rightarrow> (Inl e, tr3)
              | (Inr u', tr3) \<Rightarrow>
                  submitFinalSummary w results (length (lineComments plan))
                    (length (fileComments plan)) (length (skippedComments plan)) tr3))"

text \<open>The \<open>try\<close> block of \<open>submitBatchReviewComments\<close>: steps 1 to 4, then the delivery.\<close>

definition submitBatchReviewComments_body ::
  "world \<Rightarrow> review_result list \<Rightarrow> event list \<Rightarrow> (error + unit) \<times> event list" where
  "submitBatchReviewComments_body w results tr =
     (case getPullRequestDiff w tr of
        (Inl e, tr1) \<Rightarrow> (Inl e, tr1)
      | (Inr diffText, tr1) \<Rightarrow>
          (case getHeadCommitSha w tr1 of
             (Inl e, tr2) \<Rightarrow> (Inl e, tr2)
           | (Inr commitId, tr2) \<Rightarrow>
               deliver_plan w results
                 (prepareComments results (parseDiffPositionMap diffText)) commitId tr2))"

text \<open>Its handler logs the exception and throws it again.\<close>

definition submitBatchReviewComments ::
  "world \<Rightarrow> review_result list \<Rightarrow> event list \<Rightarrow> (error + unit) \<times> event list" where
  "submitBatchReviewComments w results tr =
     (case submitBatchReviewComments_body w results tr of
        (Inl e, tr1) \<Rightarrow> (Inl e, tr1 @ [Log Err])
      | (Inr u, tr1) \<Rightarrow> (Inr u, tr1))"

section \<open>Notions used to state the properties\<close>

text \<open>
  The definitions of this section are not code of the program: they name what the
  properties below speak about.
\<close>

subsection \<open>Resolution\<close>

text \<open>Entry \<open>i\<close> of a file's table is the nearest neighbour of line \<open>l\<close>: it lies within
  three lines, no entry is nearer, and every entry before it in the iteration order is
  strictly farther.\<close>

definition nearest_at :: "int \<Rightarrow> file_map \<Rightarrow> nat \<Rightarrow> bool" where
  "nearest_at l fm i =
     (i < length fm \<and> \<bar>fst (fm ! i) - l\<bar> \<le> 3
      \<and> list_all (\<lambda>e. \<bar>fst (fm ! i) - l\<bar> \<le> \<bar>fst e - l\<bar>) fm
      \<and> list_all (\<lambda>e. \<bar>fst (fm ! i) - l\<bar> < \<bar>fst e - l\<bar>) (take i fm))"

subsection \<open>Kinds of diff lines\<close>

text \<open>A line announces the file \<open>f\<close> when it begins with \<open>diff --git\<close> and the parser
  reads the path \<open>f\<close> from it.\<close>

definition announces :: "string \<Rightarrow> string \<Rightarrow> bool" where
  "announces ln f = (startsWith ln ''diff --git'' \<and> match_b_path ln = Some f)"

definition added_line :: "string \<Rightarrow> bool" where
  "added_line ln = (startsWith ln ''+'' \<and> \<not> startsWith ln ''+++'')"

definition removed_line :: "string \<Rightarrow> bool" where
  "removed_line ln = (startsWith ln ''-'' \<and> \<not> startsWith ln ''---'')"

text \<open>A context line is any line that none of the earlier branches of the parser takes.\<close>

definition context_line :: "string \<Rightarrow> bool" where
  "context_line ln =
     (\<not> startsWith ln ''diff --git'' \<and> \<not> startsWith ln ''---'' \<and> \<not> startsWith ln ''+++''
      \<and> \<not> startsWith ln ''@@'' \<and> \<not> startsWith ln ''+'' \<and> \<not> startsWith ln ''-'')"

definition one_line :: "string \<Rightarrow> bool" where
  "one_line ln = (CHR 0x0A \<notin> set ln)"

text \<open>The text holds the two characters \<open>b/\<close> somewhere.\<close>

fun contains_b_slash :: "string \<Rightarrow> bool" where
  "contains_b_slash [] = False"
| "contains_b_slash [c] = False"
| "contains_b_slash (c1 # c2 # rest) =
     ((c1 = CHR ''b'' \<and> c2 = CHR ''/'') \<or> contains_b_slash (c2 # rest))"

subsection \<open>Where an index entry comes from\<close>








subsection \<open>The size of a plan\<close>

text \<open>The number of findings in the groups of \<open>fileComments\<close>.\<close>

definition group_total :: "(string \<times> issue list) list \<Rightarrow> nat" where
  "group_total groups = sum_list (map (\<lambda>g. length (snd g)) groups)"

text \<open>The number of findings that a plan holds.\<close>

definition plan_size :: "comment_plan \<Rightarrow> nat" where
  "plan_size plan =
     length (lineComments plan) + group_total (fileComments plan) + length (skippedComments plan)"

text \<open>A finding without a line number.\<close>

definition general_issue :: "string \<Rightarrow> issue" where
  "general_issue msg =
     \<lparr>i_line = None, i_severity = SevWarning, i_message = msg, i_suggestion = None, i_code = None\<rparr>"

subsection \<open>Views of a trace\<close>

text \<open>A response is accepted when its status is one of success; a rejected \<open>fetch\<close> is
  not.\<close>

definition accepted :: "outcome \<Rightarrow> bool" where
  "accepted out = (case out of Response status text \<Rightarrow> ok status | Throws \<Rightarrow> False)"

definition is_422 :: "outcome \<Rightarrow> bool" where
  "is_422 out = (case out of Response status text \<Rightarrow> status = 422 | Throws \<Rightarrow> False)"

text \<open>The batch submissions and the pauses between batches, in the order of the trace.\<close>

datatype mark = Batch "line_comment list" | Pause

definition batch_mark_of :: "event \<Rightarrow> mark list" where
  "batch_mark_of ev =
     (case ev of
        Fetch st rq out \<Rightarrow>
          (case rq of
             PostReview c cs \<Rightarrow> if st = At_submitLineCommentsInBatches then [Batch cs] else []
           | _ \<Rightarrow> [])
      | Sleep n \<Rightarrow> if n = 1500 then [Pause] else []
      | _ \<Rightarrow> [])"

definition batch_marks :: "event list \<Rightarrow> mark list" where
  "batch_marks tr = concat (map batch_mark_of tr)"

text \<open>The review requests of the batch stage: those of a whole batch and those of the
  fallback, each with its commit, its comments and its outcome.\<close>

datatype review_mark =
    BatchSent string "line_comment list" outcome
  | SingleSent string "line_comment list" outcome

definition review_mark_of :: "event \<Rightarrow> review_mark list" where
  "review_mark_of ev =
     (case ev of
        Fetch st rq out \<Rightarrow>
          (case rq of
             PostReview c cs \<Rightarrow>
               if st = At_submitLineCommentsInBatches then [BatchSent c cs out]
               else if st = At_submitCommentsIndividually then [SingleSent c cs out]
               else []
           | _ \<Rightarrow> [])
      | _ \<Rightarrow> [])"

definition review_marks :: "event list \<Rightarrow> review_mark list" where
  "review_marks tr = concat (map review_mark_of tr)"

text \<open>The top-level comments, each with its body and its outcome.\<close>

definition top_mark_of :: "event \<Rightarrow> (string \<times> outcome) list" where
  "top_mark_of ev =
     (case ev of
        Fetch st rq out \<Rightarrow> (case rq of PostIssueComment body \<Rightarrow> [(body, out)] | _ \<Rightarrow> [])
      | _ \<Rightarrow> [])"

definition top_marks :: "event list \<Rightarrow> (string \<times> outcome) list" where
  "top_marks tr = concat (map top_mark_of tr)"

text \<open>The review requests of any call site, with their comments and outcomes.\<close>

definition any_review_of :: "event \<Rightarrow> (line_comment list \<times> outcome) list" where
  "any_review_of ev =
     (case ev of
        Fetch st rq out \<Rightarrow> (case rq of PostReview c cs \<Rightarrow> [(cs, out)] | _ \<Rightarrow> [])
      | _ \<Rightarrow> [])"

definition any_reviews :: "event list \<Rightarrow> (line_comment list \<times> outcome) list" where
  "any_reviews tr = concat (map any_review_of tr)"

text \<open>The number of line comments that the forge accepted.\<close>

definition delivered_line_comments :: "event list \<Rightarrow> nat" where
  "delivered_line_comments tr =
     sum_list (map (\<lambda>m. length (fst m)) (filter (\<lambda>m. accepted (snd m)) (any_reviews tr)))"

definition tally_of :: "event \<Rightarrow> (nat \<times> nat) list" where
  "tally_of ev = (case ev of Tally s f \<Rightarrow> [(s, f)] | _ \<Rightarrow> [])"

definition tallies :: "event list \<Rightarrow> (nat \<times> nat) list" where
  "tallies tr = concat (map tally_of tr)"

subsection \<open>Batches\<close>

text \<open>A list cut into pieces of \<open>n\<close> elements, the last piece holding what remains.\<close>

function chunks :: "nat \<Rightarrow> 'a list \<Rightarrow> 'a list list" where
  "chunks n xs = (if n = 0 \<or> xs = [] then [] else take n xs # chunks n (drop n xs))"
  by pat_completeness auto
termination
  by (relation "measure (\<lambda>(n, xs). length xs)") auto

text \<open>The batches with a pause between two consecutive ones, and none after the last.\<close>

fun with_pauses :: "line_comment list list \<Rightarrow> mark list" where
  "with_pauses [] = []"
| "with_pauses [b] = [Batch b]"
| "with_pauses (b # b' # bs) = Batch b # Pause # with_pauses (b' # bs)"

text \<open>A mark is the individual submission of the comment \<open>c\<close>.\<close>

definition is_single_of :: "string \<Rightarrow> line_comment \<Rightarrow> review_mark \<Rightarrow> bool" where
  "is_single_of commit c m =
     (case m of SingleSent c' cs out \<Rightarrow> c' = commit \<and> cs = [c] | BatchSent c' cs out \<Rightarrow> False)"

text \<open>
  The review requests follow the batches: each batch is sent once, in order; a batch
  answered with status 422 is followed by one individual submission for each of its
  comments, in order and whatever their outcomes, and then by the next batch; a batch
  with any other outcome is followed at once by the next batch.
\<close>

fun rounds_ok :: "string \<Rightarrow> line_comment list list \<Rightarrow> review_mark list \<Rightarrow> bool" where
  "rounds_ok commit [] ms = (ms = [])"
| "rounds_ok commit (b # bs) [] = False"
| "rounds_ok commit (b # bs) (SingleSent c cs out # ms) = False"
| "rounds_ok commit (b # bs) (BatchSent c cs out # ms) =
     (c = commit \<and> cs = b
      \<and> (if is_422 out
         then list_all2 (is_single_of commit) b (take (length b) ms)
              \<and> rounds_ok commit bs (drop (length b) ms)
         else rounds_ok commit bs ms))"

text \<open>The comments of the batches that were accepted, and of those that were not.\<close>

definition accepted_total :: "review_mark list \<Rightarrow> nat" where
  "accepted_total ms =
     sum_list (map (\<lambda>m. case m of BatchSent c cs out \<Rightarrow> if accepted out then length cs else 0
                              | SingleSent c cs out \<Rightarrow> 0) ms)"

definition failed_total :: "review_mark list \<Rightarrow> nat" where
  "failed_total ms =
     sum_list (map (\<lambda>m. case m of BatchSent c cs out \<Rightarrow> if accepted out then 0 else length cs
                              | SingleSent c cs out \<Rightarrow> 0) ms)"

subsection \<open>Top-level comments\<close>

text \<open>
  The bodies \<open>bs\<close> are posted in order until one is not accepted: \<open>ms\<close> holds the bodies
  sent with their outcomes, and \<open>completed\<close> tells whether all of them were accepted.
\<close>

fun delivery :: "string list \<Rightarrow> (string \<times> outcome) list \<Rightarrow> bool \<Rightarrow> bool" where
  "delivery [] ms completed = (ms = [] \<and> completed)"
| "delivery (b # bs) [] completed = False"
| "delivery (b # bs) (m # ms) completed =
     (fst m = b \<and> (if accepted (snd m) then delivery bs ms completed
                    else ms = [] \<and> \<not> completed))"

text \<open>The top-level comments that a plan calls for: one per file group, one per file
  with skipped comments, and the final summary.\<close>

definition expected_top_bodies :: "review_result list \<Rightarrow> comment_plan \<Rightarrow> string list" where
  "expected_top_bodies results plan =
     map (\<lambda>g. formatFileLevelComment (fst g) (snd g)) (fileComments plan)
     @ map (\<lambda>g. skippedCommentText (fst g) (snd g)) (group_skipped (skippedComments plan))
     @ [finalSummaryText (length results) (total_issues results)
          (length (lineComments plan)) (length (fileComments plan))
          (length (skippedComments plan))]"

text \<open>Whether a result is a normal return.\<close>

definition returned :: "(error + unit) \<Rightarrow> bool" where
  "returned r = (case r of Inl e \<Rightarrow> False | Inr u \<Rightarrow> True)"

subsection \<open>Example forges\<close>

text \<open>The diff of scenario A for the file \<open>src/app.ts\<close>.\<close>

definition example_diff :: string where
  "example_diff =
     ''diff --git a/src/app.ts b/src/app.ts'' @ newline @ ''@@ -1,3 +1,4 @@'' @ newline
     @ '' const a = 1'' @ newline @ ''+const b = 2'' @ newline @ ''-const c = 3'' @ newline
     @ ''+const d = 4''"

text \<open>A forge whose answer depends on the request only. It serves \<open>example_diff\<close> and a
  pull request whose head is the commit \<open>4f2a9c1\<close> (the body stands for its own
  \<open>head.sha\<close>), and answers reviews and top-level comments as told.\<close>

definition forge :: "(line_comment list \<Rightarrow> outcome) \<Rightarrow> outcome \<Rightarrow> world" where
  "forge review_answer comment_answer =
     \<lparr>respond = (\<lambda>history rq.
         case rq of
           GetPullDiff \<Rightarrow> Response 200 example_diff
         | GetPullJson \<Rightarrow> Response 200 ''4f2a9c1''
         | PostReview c cs \<Rightarrow> review_answer cs
         | PostIssueComment body \<Rightarrow> comment_answer),
      head_sha = (\<lambda>body. Some body)\<rparr>"

text \<open>A forge that cannot serve the pull request at all.\<close>

definition forge_down :: world where
  "forge_down = \<lparr>respond = (\<lambda>history rq. Response 404 ''Not Found''), head_sha = (\<lambda>body. None)\<rparr>"

text \<open>An answer that refuses a review of several comments with status 422, accepts a
  single comment at position 1 and refuses any other with status 500.\<close>

definition picky :: "line_comment list \<Rightarrow> outcome" where
  "picky cs =
     (case cs of
        [c] \<Rightarrow> if c_position c = 1 then Response 200 [] else Response 500 ''Server Error''
      | _ \<Rightarrow> Response 422 ''Unprocessable Entity'')"

text \<open>A finding on a line, and a result for \<open>src/app.ts\<close>.\<close>

definition line_issue :: "int \<Rightarrow> string \<Rightarrow> issue" where
  "line_issue l msg =
     \<lparr>i_line = Some l, i_severity = SevError, i_message = msg, i_suggestion = None, i_code = None\<rparr>"

definition app_result :: "issue list \<Rightarrow> review_result" where
  "app_result issues = \<lparr>r_file = ''src/app.ts'', r_issues = issues\<rparr>"

subsection \<open>The single comment\<close>


subsection \<open>Failures in the log\<close>

definition begins_with :: "event \<Rightarrow> event list \<Rightarrow> bool" where
  "begins_with ev tr = (case tr of [] \<Rightarrow> False | e # rest \<Rightarrow> e = ev)"

text \<open>
  Every review request that was not accepted is directly followed by a warning in the
  log, and every top-level comment that was not accepted by an error.
\<close>

fun failures_logged :: "event list \<Rightarrow> bool" where
  "failures_logged [] = True"
| "failures_logged (Fetch st rq out # rest) =
     ((case rq of
         PostReview c cs \<Rightarrow> accepted out \<or> begins_with (Log Warn) rest
       | PostIssueComment body \<Rightarrow> accepted out \<or> begins_with (Log Err) rest
       | _ \<Rightarrow> True)
      \<and> failures_logged rest)"
| "failures_logged (Sleep n # rest) = failures_logged rest"
| "failures_logged (Log lv # rest) = failures_logged rest"
| "failures_logged (Tally s f # rest) = failures_logged rest"

text \<open>The trace \<open>tr'\<close> continues \<open>tr\<close>, and what it adds has its failures logged.\<close>

definition logged_ext :: "event list \<Rightarrow> event list \<Rightarrow> bool" where
  "logged_ext tr tr' =
     (take (length tr) tr' = tr \<and> failures_logged (drop (length tr) tr'))"

text \<open>The trace ends with a top-level comment that was not accepted and the error that
  \<open>submitReviewSummary\<close> logs for it.\<close>

definition ends_refused :: "event list \<Rightarrow> bool" where
  "ends_refused tr =
     (case rev tr of
        Log Err # Fetch st rq out # before \<Rightarrow>
          st = At_submitReviewSummary \<and> \<not> accepted out
          \<and> (case rq of PostIssueComment body \<Rightarrow> True | _ \<Rightarrow> False)
      | _ \<Rightarrow> False)"

section \<open>The resolver\<close>

lemma nearest_at_nth:
  "nearest_at l fm i \<longleftrightarrow>
     (i < length fm \<and> \<bar>fst (fm ! i) - l\<bar> \<le> 3
      \<and> (\<forall>j < length fm. \<bar>fst (fm ! i) - l\<bar> \<le> \<bar>fst (fm ! j) - l\<bar>)
      \<and> (\<forall>j < i. \<bar>fst (fm ! i) - l\<bar> < \<bar>fst (fm ! j) - l\<bar>))"
  by (auto simp: nearest_at_def list_all_length)

lemma nearest_at_unique: "nearest_at l fm i \<Longrightarrow> nearest_at l fm k \<Longrightarrow> i = k"
proof (rule ccontr)
  assume a: "nearest_at l fm i" and b: "nearest_at l fm k" and ne: "i \<noteq> k"
  then consider "i < k" | "k < i" by linarith
  then show False
  proof cases
    case 1
    from b 1 have "\<bar>fst (fm ! k) - l\<bar> < \<bar>fst (fm ! i) - l\<bar>" by (simp add: nearest_at_nth)
    moreover from a b have "\<bar>fst (fm ! i) - l\<bar> \<le> \<bar>fst (fm ! k) - l\<bar>" by (simp add: nearest_at_nth)
    ultimately show False by simp
  next
    case 2
    from a 2 have "\<bar>fst (fm ! i) - l\<bar> < \<bar>fst (fm ! k) - l\<bar>" by (simp add: nearest_at_nth)
    moreover from a b have "\<bar>fst (fm ! k) - l\<bar> \<le> \<bar>fst (fm ! i) - l\<bar>" by (simp add: nearest_at_nth)
    ultimately show False by simp
  qed
qed

lemma closest_step_None:
  "closest_step l (None, None) x =
     (if \<bar>fst x - l\<bar> \<le> 3 then (Some (snd x), Some \<bar>fst x - l\<bar>) else (None, None))"
  by (simp add: closest_step_def)

lemma closest_step_Some:
  "closest_step l (Some p, Some m) x =
     (if \<bar>fst x - l\<bar> < m \<and> \<bar>fst x - l\<bar> \<le> 3 then (Some (snd x), Some \<bar>fst x - l\<bar>)
      else (Some p, Some m))"
  by (simp add: closest_step_def Let_def)

lemma closest_scan:
  "(foldl (closest_step l) (None, None) fm = (None, None) \<and> (\<forall>e \<in> set fm. 3 < \<bar>fst e - l\<bar>))
   \<or> (\<exists>i. nearest_at l fm i
          \<and> foldl (closest_step l) (None, None) fm = (Some (snd (fm ! i)), Some \<bar>fst (fm ! i) - l\<bar>))"
proof (induction fm rule: rev_induct)
  case Nil
  show ?case by simp
next
  case (snoc x xs)
  let ?d = "\<bar>fst x - l\<bar>"
  from snoc.IH show ?case
  proof (elim disjE conjE exE)
    assume none: "foldl (closest_step l) (None, None) xs = (None, None)"
      and far: "\<forall>e \<in> set xs. 3 < \<bar>fst e - l\<bar>"
    show ?thesis
    proof (cases "?d \<le> 3")
      case True
      have "nearest_at l (xs @ [x]) (length xs)"
        using True far by (auto simp: nearest_at_nth nth_append less_Suc_eq dest!: nth_mem)
      moreover have "foldl (closest_step l) (None, None) (xs @ [x]) = (Some (snd x), Some ?d)"
        using True none by (simp add: closest_step_None)
      ultimately show ?thesis by (intro disjI2 exI[of _ "length xs"]) simp
    next
      case False
      then show ?thesis using none far by (simp add: closest_step_None)
    qed
  next
    fix i
    assume near: "nearest_at l xs i"
      and res: "foldl (closest_step l) (None, None) xs = (Some (snd (xs ! i)), Some \<bar>fst (xs ! i) - l\<bar>)"
    let ?di = "\<bar>fst (xs ! i) - l\<bar>"
    show ?thesis
    proof (cases "?d < ?di \<and> ?d \<le> 3")
      case True
      have "nearest_at l (xs @ [x]) (length xs)"
        using True near by (fastforce simp: nearest_at_nth nth_append less_Suc_eq)
      moreover have "foldl (closest_step l) (None, None) (xs @ [x]) = (Some (snd x), Some ?d)"
        using True res by (simp add: closest_step_Some)
      ultimately show ?thesis by (intro disjI2 exI[of _ "length xs"]) simp
    next
      case False
      with near have ge: "?di \<le> ?d" by (auto simp: nearest_at_nth)
      have "nearest_at l (xs @ [x]) i"
        using near ge by (auto simp: nearest_at_nth nth_append less_Suc_eq)
      moreover have "foldl (closest_step l) (None, None) (xs @ [x]) = (Some (snd (xs ! i)), Some ?di)"
        using False res by (auto simp: closest_step_Some)
      moreover have "(xs @ [x]) ! i = xs ! i" using near by (simp add: nearest_at_nth nth_append)
      ultimately show ?thesis by (intro disjI2 exI[of _ i]) simp
    qed
  qed
qed

lemma find_exact:
  "map_of pm file = Some fm \<Longrightarrow> map_of fm l = Some p \<Longrightarrow> findPositionInMap file l pm = Some p"
  by (simp add: findPositionInMap_def)

lemma find_nearest:
  assumes "map_of pm file = Some fm" "map_of fm l = None" "nearest_at l fm i"
  shows "findPositionInMap file l pm = Some (snd (fm ! i))"
proof -
  from closest_scan[of l fm] show ?thesis
  proof (elim disjE conjE exE)
    assume "\<forall>e \<in> set fm. 3 < \<bar>fst e - l\<bar>"
    moreover from assms(3) have "fm ! i \<in> set fm" "\<bar>fst (fm ! i) - l\<bar> \<le> 3"
      by (simp_all add: nearest_at_nth)
    ultimately show ?thesis by fastforce
  next
    fix k
    assume k: "nearest_at l fm k"
      and r: "foldl (closest_step l) (None, None) fm = (Some (snd (fm ! k)), Some \<bar>fst (fm ! k) - l\<bar>)"
    from k assms(3) have "k = i" by (rule nearest_at_unique)
    with r assms(1,2) show ?thesis by (simp add: findPositionInMap_def)
  qed
qed

lemma find_some_nearest:
  assumes "map_of pm file = Some fm" "map_of fm l = None" "\<exists>e \<in> set fm. \<bar>fst e - l\<bar> \<le> 3"
  shows "\<exists>i. nearest_at l fm i \<and> findPositionInMap file l pm = Some (snd (fm ! i))"
proof -
  from closest_scan[of l fm] assms(3) obtain i where "nearest_at l fm i" by fastforce
  with find_nearest[OF assms(1,2)] show ?thesis by blast
qed

lemma find_None_iff:
  "findPositionInMap file l pm = None \<longleftrightarrow>
     (map_of pm file = None \<or> (\<exists>fm. map_of pm file = Some fm \<and> (\<forall>e \<in> set fm. 3 < \<bar>fst e - l\<bar>)))"
proof (cases "map_of pm file")
  case None
  then show ?thesis by (simp add: findPositionInMap_def)
next
  case (Some fm)
  show ?thesis
  proof (cases "map_of fm l")
    case exact: (Some p)
    then have "(l, p) \<in> set fm" by (rule map_of_SomeD)
    then have "\<not> (\<forall>e \<in> set fm. 3 < \<bar>fst e - l\<bar>)" by force
    with Some exact show ?thesis by (simp add: findPositionInMap_def)
  next
    case None
    from closest_scan[of l fm] show ?thesis
    proof (elim disjE conjE exE)
      assume "foldl (closest_step l) (None, None) fm = (None, None)" "\<forall>e \<in> set fm. 3 < \<bar>fst e - l\<bar>"
      with Some None show ?thesis by (simp add: findPositionInMap_def)
    next
      fix i
      assume k: "nearest_at l fm i"
        and r: "foldl (closest_step l) (None, None) fm = (Some (snd (fm ! i)), Some \<bar>fst (fm ! i) - l\<bar>)"
      from k have "fm ! i \<in> set fm" "\<bar>fst (fm ! i) - l\<bar> \<le> 3" by (simp_all add: nearest_at_nth)
      then have "\<not> (\<forall>e \<in> set fm. 3 < \<bar>fst e - l\<bar>)" by force
      with Some None r show ?thesis by (simp add: findPositionInMap_def)
    qed
  qed
qed

lemma find_within_3:
  assumes "findPositionInMap file l pm = Some q"
  shows "\<exists>fm c. map_of pm file = Some fm \<and> (c, q) \<in> set fm \<and> \<bar>c - l\<bar> \<le> 3"
proof (cases "map_of pm file")
  case None
  with assms show ?thesis by (simp add: findPositionInMap_def)
next
  case (Some fm)
  show ?thesis
  proof (cases "map_of fm l")
    case exact: (Some p)
    with Some assms have "p = q" by (simp add: findPositionInMap_def)
    with exact have "(l, q) \<in> set fm" by (auto dest: map_of_SomeD)
    with Some show ?thesis by force
  next
    case None
    from closest_scan[of l fm] show ?thesis
    proof (elim disjE conjE exE)
      assume "foldl (closest_step l) (None, None) fm = (None, None)"
      with Some None assms show ?thesis by (simp add: findPositionInMap_def)
    next
      fix i
      assume k: "nearest_at l fm i"
        and r: "foldl (closest_step l) (None, None) fm = (Some (snd (fm ! i)), Some \<bar>fst (fm ! i) - l\<bar>)"
      from Some None r assms have q: "q = snd (fm ! i)" by (simp add: findPositionInMap_def)
      from k have "fm ! i \<in> set fm" "\<bar>fst (fm ! i) - l\<bar> \<le> 3" by (simp_all add: nearest_at_nth)
      with q have "(fst (fm ! i), q) \<in> set fm" by simp
      with Some \<open>\<bar>fst (fm ! i) - l\<bar> \<le> 3\<close> show ?thesis by blast
    qed
  qed
qed

text \<open>
  C4. For every index, file and line: an exact entry is returned as it is; without one,
  the result is the position of the nearest entry within three lines, the first in the
  table's order among equally near ones, and such an entry is found whenever some entry
  lies within three lines; the result is not-found exactly when the file has no table or
  no entry of its table lies within three lines; and a returned position always belongs
  to an entry of the file at most three lines away.
\<close>

theorem findPositionInMap_exact_or_nearest:
  "(map_of pm file = Some fm \<and> map_of fm l = Some p \<longrightarrow> findPositionInMap file l pm = Some p)
   \<and> (map_of pm file = Some fm \<and> map_of fm l = None \<and> nearest_at l fm i
        \<longrightarrow> findPositionInMap file l pm = Some (snd (fm ! i)))
   \<and> (map_of pm file = Some fm \<and> map_of fm l = None \<and> (\<exists>e \<in> set fm. \<bar>fst e - l\<bar> \<le> 3)
        \<longrightarrow> (\<exists>k. nearest_at l fm k \<and> findPositionInMap file l pm = Some (snd (fm ! k))))
   \<and> (findPositionInMap file l pm = None \<longleftrightarrow>
        (map_of pm file = None
         \<or> (\<exists>fm'. map_of pm file = Some fm' \<and> (\<forall>e \<in> set fm'. 3 < \<bar>fst e - l\<bar>))))
   \<and> (findPositionInMap file l pm = Some q
        \<longrightarrow> (\<exists>fm' c. map_of pm file = Some fm' \<and> (c, q) \<in> set fm' \<and> \<bar>c - l\<bar> \<le> 3))"
  using find_exact[of pm "file" fm l p] find_nearest[of pm "file" fm l i]
    find_some_nearest[of pm "file" fm l] find_None_iff[of "file" l pm] find_within_3[of "file" l pm q]
  by blast

theorem findPositionInMap_exact_or_nearest_witness:
  "findPositionInMap ''a.ts'' 44 [(''a.ts'', [(44, 7), (40, 3), (45, 9)])] = Some 7
   \<and> nearest_at 42 [(44, 7), (40, 3), (45, 9)] 0
   \<and> findPositionInMap ''a.ts'' 42 [(''a.ts'', [(44, 7), (40, 3), (45, 9)])] = Some 7
   \<and> findPositionInMap ''a.ts'' 50 [(''a.ts'', [(44, 7), (40, 3), (45, 9)])] = None
   \<and> findPositionInMap ''b.ts'' 44 [(''a.ts'', [(44, 7), (40, 3), (45, 9)])] = None"
  using findPositionInMap_exact_or_nearest
          [of "[(''a.ts'', [(44, 7), (40, 3), (45, 9)])]" "''a.ts''" "[(44, 7), (40, 3), (45, 9)]" 44 7 0 0]
        findPositionInMap_exact_or_nearest
          [of "[(''a.ts'', [(44, 7), (40, 3), (45, 9)])]" "''a.ts''" "[(44, 7), (40, 3), (45, 9)]" 42 0 0 7]
        findPositionInMap_exact_or_nearest
          [of "[(''a.ts'', [(44, 7), (40, 3), (45, 9)])]" "''a.ts''" "[(44, 7), (40, 3), (45, 9)]" 50 0 0 0]
        findPositionInMap_exact_or_nearest
          [of "[(''a.ts'', [(44, 7), (40, 3), (45, 9)])]" "''b.ts''" "[(44, 7), (40, 3), (45, 9)]" 44 0 0 0]
  by (simp add: nearest_at_def)

section \<open>The parser\<close>

lemma split_nl_single: "one_line xs \<Longrightarrow> split_nl xs = [xs]"
  by (induction xs) (auto simp: one_line_def)

lemma split_nl_line: "one_line xs \<Longrightarrow> split_nl (xs @ CHR 0x0A # ys) = xs # split_nl ys"
  by (induction xs) (auto simp: one_line_def)

lemma startsWith_plus: "startsWith ln ''+'' \<Longrightarrow> \<not> startsWith ln ''diff --git'' \<and> \<not> startsWith ln ''---'' \<and> \<not> startsWith ln ''@@'' \<and> \<not> startsWith ln ''-''"
  by (cases ln) auto

lemma startsWith_minus: "startsWith ln ''-'' \<Longrightarrow> \<not> startsWith ln ''diff --git'' \<and> \<not> startsWith ln ''+++'' \<and> \<not> startsWith ln ''@@'' \<and> \<not> startsWith ln ''+''"
  by (cases ln) auto

lemma parse_line_header:
  "announces ln f \<Longrightarrow> parse_line s ln = s\<lparr>currentFile := f, currentPosition := 0, currentNewLine := 0,
                       inHunk := False, positionMap := map_set (positionMap s) f []\<rparr>"
  by (simp add: announces_def parse_line_def)

lemma parse_line_added:
  "added_line ln \<Longrightarrow> inHunk s \<Longrightarrow> parse_line s ln =
        s\<lparr>currentPosition := currentPosition s + 1,
          currentNewLine := currentNewLine s + 1,
          positionMap := record_position (positionMap s) (currentFile s)
                           (currentNewLine s + 1) (currentPosition s + 1)\<rparr>"
  using startsWith_plus[of ln] by (simp add: added_line_def parse_line_def)

lemma parse_line_removed: "removed_line ln \<Longrightarrow> parse_line s ln = s"
  using startsWith_minus[of ln] by (simp add: removed_line_def parse_line_def)

lemma parse_line_context:
  "context_line ln \<Longrightarrow> inHunk s \<Longrightarrow> parse_line s ln = s\<lparr>currentNewLine := currentNewLine s + 1, currentPosition := 0\<rparr>"
  by (simp add: context_line_def parse_line_def)

lemma match_hunk_scenario: "match_hunk ''@@ -1,3 +1,4 @@'' = Some ''1''"
  by (simp add: match_hunk_here_def expect_def digits1_def is_digit_def)

lemma parse_line_hunk_scenario:
  "parse_line s ''@@ -1,3 +1,4 @@'' = s\<lparr>currentNewLine := 0, currentPosition := 0, inHunk := True\<rparr>"
  by (simp add: parse_line_def match_hunk_scenario parseInt_def del: match_hunk.simps)

lemma scenario_lines:
  assumes "announces h F" "context_line c" "added_line a1" "removed_line r" "added_line a2"
  shows "positionMap (parse_lines [h, ''@@ -1,3 +1,4 @@'', c, a1, r, a2]) = [(F, [(2, 1), (3, 2)])]"
    and "positionMap (parse_lines [h, ''@@ -1,3 +1,4 @@'', c, a1, r, a2, []]) = [(F, [(2, 1), (3, 2)])]"
proof -
  have e: "context_line []" by (simp add: context_line_def)
  show "positionMap (parse_lines [h, ''@@ -1,3 +1,4 @@'', c, a1, r, a2]) = [(F, [(2, 1), (3, 2)])]"
    using assms
    by (simp add: parse_lines_def parse_init_def parse_line_header parse_line_hunk_scenario
        parse_line_context parse_line_added parse_line_removed record_position_def)
  show "positionMap (parse_lines [h, ''@@ -1,3 +1,4 @@'', c, a1, r, a2, []]) = [(F, [(2, 1), (3, 2)])]"
    using assms e
    by (simp add: parse_lines_def parse_init_def parse_line_header parse_line_hunk_scenario
        parse_line_context parse_line_added parse_line_removed record_position_def)
qed

text \<open>
  Scenario A for a header line from which the parser reads the path \<open>F\<close>: the hunk
  header \<open>@@ -1,3 +1,4 @@\<close>, then a context line, an added line, a removed line and an
  added line. The index has the single file \<open>F\<close> with exactly two entries: new line 2
  at position 1 and new line 3 at position 2. The context line resets the position to 0,
  the removed line changes neither counter. The same holds when the text ends with a
  line feed.
\<close>

lemma scenario_A_positions:
  assumes "announces h F" "one_line h"
    and "context_line c" "one_line c"
    and "added_line a1" "one_line a1"
    and "removed_line r" "one_line r"
    and "added_line a2" "one_line a2"
  shows "parseDiffPositionMap
           (h @ newline @ ''@@ -1,3 +1,4 @@'' @ newline @ c @ newline @ a1 @ newline
              @ r @ newline @ a2) = [(F, [(2, 1), (3, 2)])]
       \<and> parseDiffPositionMap
           (h @ newline @ ''@@ -1,3 +1,4 @@'' @ newline @ c @ newline @ a1 @ newline
              @ r @ newline @ a2 @ newline) = [(F, [(2, 1), (3, 2)])]"
proof -
  have hh: "one_line ''@@ -1,3 +1,4 @@''" by (simp add: one_line_def)
  have e: "one_line []" by (simp add: one_line_def)
  have s1: "split_nl (h @ newline @ ''@@ -1,3 +1,4 @@'' @ newline @ c @ newline @ a1 @ newline
              @ r @ newline @ a2) = [h, ''@@ -1,3 +1,4 @@'', c, a1, r, a2]"
    using assms(2,4,6,8,10) hh
    by (simp add: newline_def split_nl_line split_nl_single)
  have s2: "split_nl (h @ newline @ ''@@ -1,3 +1,4 @@'' @ newline @ c @ newline @ a1 @ newline
              @ r @ newline @ a2 @ newline) = [h, ''@@ -1,3 +1,4 @@'', c, a1, r, a2, []]"
    using assms(2,4,6,8,10) hh e
    by (simp add: newline_def split_nl_line split_nl_single)
  show ?thesis
    unfolding parseDiffPositionMap_def s1 s2
    using scenario_lines[OF assms(1,3,5,7,9)] by simp
qed

lemma scenario_A_positions_example:
  "announces ''diff --git a/src/app.ts b/src/app.ts'' ''src/app.ts''
   \<and> context_line '' const a = 1'' \<and> added_line ''+const b = 2''
   \<and> removed_line ''-const c = 3'' \<and> added_line ''+const d = 4''
   \<and> parseDiffPositionMap
        (''diff --git a/src/app.ts b/src/app.ts'' @ newline @ ''@@ -1,3 +1,4 @@'' @ newline
           @ '' const a = 1'' @ newline @ ''+const b = 2'' @ newline @ ''-const c = 3'' @ newline
           @ ''+const d = 4'') = [(''src/app.ts'', [(2, 1), (3, 2)])]"
proof -
  have 1: "announces ''diff --git a/src/app.ts b/src/app.ts'' ''src/app.ts''"
    by (simp add: announces_def)
  have 2: "context_line '' const a = 1''" "added_line ''+const b = 2''"
    "removed_line ''-const c = 3''" "added_line ''+const d = 4''"
    by (simp_all add: context_line_def added_line_def removed_line_def)
  have 3: "one_line ''diff --git a/src/app.ts b/src/app.ts''" "one_line '' const a = 1''"
    "one_line ''+const b = 2''" "one_line ''-const c = 3''" "one_line ''+const d = 4''"
    by (simp_all add: one_line_def)
  from scenario_A_positions[OF 1 3(1) 2(1) 3(2) 2(2) 3(3) 2(3) 3(4) 2(4) 3(5)] 1 2
  show ?thesis by blast
qed

text \<open>
  The path is read after the leftmost \<open>b/\<close> of the header line. When the text before the
  marker holds no \<open>b/\<close>, the path is the one after the marker; a path with a directory
  whose name ends in \<open>b\<close> is read differently.
\<close>

lemma match_b_path_marker:
  assumes "\<not> contains_b_slash pre" "F \<noteq> []" "\<not> has_line_terminator F"
  shows "match_b_path (pre @ ''b/'' @ F) = Some F"
  using assms(1)
proof (induction pre rule: contains_b_slash.induct)
  case 1
  from assms(2,3) show ?case by simp
next
  case (2 c)
  from assms(2,3) show ?case by simp
next
  case (3 c1 c2 rest)
  then show ?case by (cases rest) (auto split: if_splits)
qed

lemma header_of_plain_path:
  assumes "\<not> contains_b_slash (''diff --git a/'' @ old @ '' '')" "F \<noteq> []" "\<not> has_line_terminator F"
  shows "announces (''diff --git a/'' @ old @ '' b/'' @ F) F"
proof -
  have "match_b_path ((''diff --git a/'' @ old @ '' '') @ ''b/'' @ F) = Some F"
    using assms by (rule match_b_path_marker)
  then show ?thesis by (simp add: announces_def)
qed

lemma header_of_lib_path:
  "announces ''diff --git a/lib/x.ts b/lib/x.ts'' ''x.ts b/lib/x.ts''"
  by (simp add: announces_def)

lemma no_terminator_one_line: "\<not> has_line_terminator s \<Longrightarrow> one_line s"
  by (induction s) (auto simp: one_line_def)

text \<open>
  Scenario A for git's header of an unrenamed file \<open>F\<close> whose path holds no \<open>b/\<close>: the
  index is the file \<open>F\<close> with new line 2 at position 1 and new line 3 at position 2.
\<close>

lemma scenario_A_plain_path:
  assumes "F \<noteq> []" "\<not> has_line_terminator F"
    and "\<not> contains_b_slash (''diff --git a/'' @ F @ '' '')"
    and "context_line c" "one_line c" "added_line a1" "one_line a1"
    and "removed_line r" "one_line r" "added_line a2" "one_line a2"
  shows "parseDiffPositionMap
           (''diff --git a/'' @ F @ '' b/'' @ F @ newline @ ''@@ -1,3 +1,4 @@'' @ newline
              @ c @ newline @ a1 @ newline @ r @ newline @ a2) = [(F, [(2, 1), (3, 2)])]"
proof -
  have a: "announces (''diff --git a/'' @ F @ '' b/'' @ F) F"
    using assms(3,1,2) by (rule header_of_plain_path)
  have o: "one_line (''diff --git a/'' @ F @ '' b/'' @ F)"
    using no_terminator_one_line[OF assms(2)] by (simp add: one_line_def)
  from scenario_A_positions[OF a o assms(4-11)] show ?thesis by simp
qed

text \<open>
  C5. Scenario A is to give an index for the file \<open>F\<close> of the header, with new lines 2 and
  3 at positions 1 and 2. The parser reads the path after the leftmost \<open>b/\<close> of the header
  line. For git's header of \<open>lib/x.ts\<close> that is the \<open>b/\<close> inside \<open>a/lib/\<close>: the two entries,
  with the right lines and positions, are stored under \<open>x.ts b/lib/x.ts\<close>, and the index has
  no table for \<open>lib/x.ts\<close>.
\<close>

theorem scenario_A_lib_path_misfiled:
  "parseDiffPositionMap
     (''diff --git a/lib/x.ts b/lib/x.ts'' @ newline @ ''@@ -1,3 +1,4 @@'' @ newline
        @ '' const a = 1'' @ newline @ ''+const b = 2'' @ newline @ ''-const c = 3'' @ newline
        @ ''+const d = 4'')
     = [(''x.ts b/lib/x.ts'', [(2, 1), (3, 2)])]
   \<and> map_of (parseDiffPositionMap
        (''diff --git a/lib/x.ts b/lib/x.ts'' @ newline @ ''@@ -1,3 +1,4 @@'' @ newline
           @ '' const a = 1'' @ newline @ ''+const b = 2'' @ newline @ ''-const c = 3'' @ newline
           @ ''+const d = 4'')) ''lib/x.ts'' = None
   \<and> findPositionInMap ''lib/x.ts'' 2 (parseDiffPositionMap
        (''diff --git a/lib/x.ts b/lib/x.ts'' @ newline @ ''@@ -1,3 +1,4 @@'' @ newline
           @ '' const a = 1'' @ newline @ ''+const b = 2'' @ newline @ ''-const c = 3'' @ newline
           @ ''+const d = 4'')) = None"
proof -
  have "parseDiffPositionMap
     (''diff --git a/lib/x.ts b/lib/x.ts'' @ newline @ ''@@ -1,3 +1,4 @@'' @ newline
        @ '' const a = 1'' @ newline @ ''+const b = 2'' @ newline @ ''-const c = 3'' @ newline
        @ ''+const d = 4'')
     = [(''x.ts b/lib/x.ts'', [(2, 1), (3, 2)])]"
    by (simp add: newline_def parseDiffPositionMap_def parse_lines_def parse_line_def
        parse_init_def match_hunk_here_def expect_def digits1_def is_digit_def parseInt_def
        record_position_def)
  then show ?thesis by (simp add: findPositionInMap_def)
qed





lemma match_b_path_nonempty: "match_b_path s = Some f \<Longrightarrow> f \<noteq> []"
  by (induction s rule: match_b_path.induct) (auto split: if_splits)















section \<open>The planner\<close>

lemma total_issues_sum: "total_issues results = sum_list (map (\<lambda>r. length (r_issues r)) results)"
proof -
  have "foldl (\<lambda>sum r. sum + length (r_issues r)) a results
          = a + sum_list (map (\<lambda>r. length (r_issues r)) results)" for a
    by (induction results arbitrary: a) simp_all
  then show ?thesis by (simp add: total_issues_def)
qed

lemma map_set_fresh: "k \<notin> fst ` set m \<Longrightarrow> map_set m k v = m @ [(k, v)]"
  by (induction m k v rule: map_set.induct) auto

lemma keys_map_set: "fst ` set (map_set m k v) = insert k (fst ` set m)"
  by (induction m k v rule: map_set.induct) auto

lemma place_issue_size:
  "i_line issue \<noteq> None \<Longrightarrow>
     plan_size (place_issue pm path acc issue) = Suc (plan_size acc)
     \<and> fileComments (place_issue pm path acc issue) = fileComments acc"
  by (auto simp: place_issue_def plan_size_def split: option.splits)

lemma place_issues_size:
  "\<forall>i \<in> set issues. i_line i \<noteq> None \<Longrightarrow>
     plan_size (foldl (place_issue pm path) acc issues) = plan_size acc + length issues
     \<and> fileComments (foldl (place_issue pm path) acc issues) = fileComments acc"
proof (induction issues arbitrary: acc)
  case Nil
  show ?case by simp
next
  case (Cons i issues)
  from Cons.prems have "i_line i \<noteq> None" by simp
  from place_issue_size[OF this, of pm path acc] Cons.IH[of "place_issue pm path acc i"] Cons.prems
  show ?case by simp
qed

lemma truthy_line_Some: "truthy_line l \<Longrightarrow> l \<noteq> None"
  by (cases l) (simp_all add: truthy_line_def)

lemma prepare_result_size:
  assumes "r_file result \<notin> fst ` set (fileComments acc)"
  shows "plan_size (prepare_result pm acc result) = plan_size acc + length (r_issues result)"
    and "fst ` set (fileComments (prepare_result pm acc result)) \<subseteq> insert (r_file result) (fst ` set (fileComments acc))"
proof -
  let ?li = "filter (\<lambda>i. truthy_line (i_line i)) (r_issues result)"
  let ?gi = "filter (\<lambda>i. \<not> truthy_line (i_line i)) (r_issues result)"
  let ?acc1 = "foldl (place_issue pm (r_file result)) acc ?li"
  have "\<forall>i \<in> set ?li. i_line i \<noteq> None" by (auto dest: truthy_line_Some)
  from place_issues_size[OF this, of pm "r_file result" acc]
  have a1: "plan_size ?acc1 = plan_size acc + length ?li" "fileComments ?acc1 = fileComments acc"
    by simp_all
  have len: "length ?li + length ?gi = length (r_issues result)"
    by (rule sum_length_filter_compl)
  show "plan_size (prepare_result pm acc result) = plan_size acc + length (r_issues result)"
  proof (cases "length ?gi > 0")
    case True
    have "map_set (fileComments ?acc1) (r_file result) ?gi = fileComments acc @ [(r_file result, ?gi)]"
      using assms a1(2) by (simp add: map_set_fresh)
    then have "plan_size (prepare_result pm acc result) = plan_size ?acc1 + length ?gi"
      using True a1(2) by (simp add: prepare_result_def Let_def plan_size_def group_total_def)
    with a1(1) len show ?thesis by simp
  next
    case False
    then have "plan_size (prepare_result pm acc result) = plan_size ?acc1"
      by (simp add: prepare_result_def Let_def)
    with a1(1) len False show ?thesis by simp
  qed
  show "fst ` set (fileComments (prepare_result pm acc result)) \<subseteq> insert (r_file result) (fst ` set (fileComments acc))"
    using a1(2) by (auto simp: prepare_result_def Let_def keys_map_set)
qed

lemma prepare_results_size:
  assumes "distinct (map r_file results)"
    and "\<forall>r \<in> set results. r_file r \<notin> fst ` set (fileComments acc)"
  shows "plan_size (foldl (prepare_result pm) acc results) = plan_size acc + total_issues results"
  using assms
proof (induction results arbitrary: acc)
  case Nil
  show ?case by (simp add: total_issues_sum)
next
  case (Cons r results)
  from Cons.prems have fresh: "r_file r \<notin> fst ` set (fileComments acc)" by simp
  have "\<forall>r' \<in> set results. r_file r' \<notin> fst ` set (fileComments (prepare_result pm acc r))"
  proof
    fix r' assume r': "r' \<in> set results"
    from Cons.prems(1) have "r_file r \<notin> r_file ` set results" by simp
    with r' have "r_file r' \<noteq> r_file r" by (metis image_eqI)
    moreover from Cons.prems(2) r' have "r_file r' \<notin> fst ` set (fileComments acc)" by simp
    ultimately have "r_file r' \<noteq> r_file r" "r_file r' \<notin> fst ` set (fileComments acc)"
      by blast+
    then have "r_file r' \<notin> insert (r_file r) (fst ` set (fileComments acc))" by simp
    with prepare_result_size(2)[OF fresh, of pm]
    show "r_file r' \<notin> fst ` set (fileComments (prepare_result pm acc r))" by blast
  qed
  moreover from Cons.prems have "distinct (map r_file results)" by simp
  ultimately have "plan_size (foldl (prepare_result pm) (prepare_result pm acc r) results)
                     = plan_size (prepare_result pm acc r) + total_issues results"
    by (rule Cons.IH[rotated])
  with prepare_result_size(1)[OF fresh, of pm] show ?case by (simp add: total_issues_sum)
qed

text \<open>When no two results name the same file, the plan holds every finding once:
  the sizes of the three collections add up to the number of findings.\<close>

lemma plan_complete_distinct_files:
  "distinct (map r_file results) \<Longrightarrow> plan_size (prepareComments results pm) = total_issues results"
  using prepare_results_size[of results empty_plan pm]
  by (simp add: prepareComments_def empty_plan_def plan_size_def group_total_def)

text \<open>
  C1. The planner is to place every finding in exactly one of \<open>lineComments\<close>,
  \<open>fileComments\<close> and \<open>skipped\<close>, appending findings without a line number to their
  file's group also when the same path occurs in more than one result. The code stores
  the group of a result under its path with \<open>set\<close>, which replaces the group stored by
  an earlier result of the same path: for two results of \<open>a.ts\<close> with one such finding
  each, the plan holds only the second finding, one finding for two.
\<close>

theorem prepareComments_repeated_file_loses_finding:
  "prepareComments
     [\<lparr>r_file = ''a.ts'', r_issues = [general_issue ''first'']\<rparr>,
      \<lparr>r_file = ''a.ts'', r_issues = [general_issue ''second'']\<rparr>] []
     = \<lparr>lineComments = [], fileComments = [(''a.ts'', [general_issue ''second''])],
        skippedComments = []\<rparr>
   \<and> plan_size (prepareComments
        [\<lparr>r_file = ''a.ts'', r_issues = [general_issue ''first'']\<rparr>,
         \<lparr>r_file = ''a.ts'', r_issues = [general_issue ''second'']\<rparr>] []) = 1
   \<and> total_issues
        [\<lparr>r_file = ''a.ts'', r_issues = [general_issue ''first'']\<rparr>,
         \<lparr>r_file = ''a.ts'', r_issues = [general_issue ''second'']\<rparr>] = 2"
  by (simp add: prepareComments_def prepare_result_def empty_plan_def general_issue_def
      truthy_line_def plan_size_def group_total_def total_issues_def)

section \<open>The delivery pipeline\<close>

subsection \<open>How each stage shows in the views\<close>

lemma batch_marks_append [simp]: "batch_marks (a @ b) = batch_marks a @ batch_marks b"
  by (simp add: batch_marks_def)

lemma review_marks_append [simp]: "review_marks (a @ b) = review_marks a @ review_marks b"
  by (simp add: review_marks_def)

lemma top_marks_append [simp]: "top_marks (a @ b) = top_marks a @ top_marks b"
  by (simp add: top_marks_def)

lemma any_reviews_append [simp]: "any_reviews (a @ b) = any_reviews a @ any_reviews b"
  by (simp add: any_reviews_def)

lemma tallies_append [simp]: "tallies (a @ b) = tallies a @ tallies b"
  by (simp add: tallies_def)

lemma marks_Cons [simp]:
  "batch_marks (ev # tr) = batch_mark_of ev @ batch_marks tr"
  "review_marks (ev # tr) = review_mark_of ev @ review_marks tr"
  "top_marks (ev # tr) = top_mark_of ev @ top_marks tr"
  "any_reviews (ev # tr) = any_review_of ev @ any_reviews tr"
  "tallies (ev # tr) = tally_of ev @ tallies tr"
  by (simp_all add: batch_marks_def review_marks_def top_marks_def any_reviews_def tallies_def)

lemma marks_Nil [simp]:
  "batch_marks [] = []" "review_marks [] = []" "top_marks [] = []" "any_reviews [] = []"
  "tallies [] = []"
  by (simp_all add: batch_marks_def review_marks_def top_marks_def any_reviews_def tallies_def)

lemma fetch_eq: "fetch w st rq tr = (respond w tr rq, tr @ [Fetch st rq (respond w tr rq)])"
  by (simp add: fetch_def Let_def)

lemma marks_of_simple [simp]:
  "batch_mark_of (Log lv) = []" "review_mark_of (Log lv) = []" "top_mark_of (Log lv) = []"
  "tally_of (Log lv) = []" "any_review_of (Log lv) = []"
  "review_mark_of (Sleep n) = []" "top_mark_of (Sleep n) = []" "tally_of (Sleep n) = []"
  "any_review_of (Sleep n) = []"
  "batch_mark_of (Tally s f) = []" "review_mark_of (Tally s f) = []" "top_mark_of (Tally s f) = []"
  "tally_of (Tally s f) = [(s, f)]" "any_review_of (Tally s f) = []"
  "tally_of (Fetch st rq out) = []"
  "batch_mark_of (Sleep 500) = []" "batch_mark_of (Sleep 1000) = []" "batch_mark_of (Sleep 1500) = [Pause]"
  by (simp_all add: batch_mark_of_def review_mark_of_def top_mark_of_def tally_of_def any_review_of_def)

lemma marks_of_top [simp]:
  "batch_mark_of (Fetch st (PostIssueComment body) out) = []"
  "review_mark_of (Fetch st (PostIssueComment body) out) = []"
  "top_mark_of (Fetch st (PostIssueComment body) out) = [(body, out)]"
  "any_review_of (Fetch st (PostIssueComment body) out) = []"
  by (simp_all add: batch_mark_of_def review_mark_of_def top_mark_of_def any_review_of_def)

lemma marks_of_get [simp]:
  "batch_mark_of (Fetch st GetPullDiff out) = []" "batch_mark_of (Fetch st GetPullJson out) = []"
  "review_mark_of (Fetch st GetPullDiff out) = []" "review_mark_of (Fetch st GetPullJson out) = []"
  "top_mark_of (Fetch st GetPullDiff out) = []" "top_mark_of (Fetch st GetPullJson out) = []"
  "any_review_of (Fetch st GetPullDiff out) = []" "any_review_of (Fetch st GetPullJson out) = []"
  by (simp_all add: batch_mark_of_def review_mark_of_def top_mark_of_def any_review_of_def)

lemma marks_of_review [simp]:
  "batch_mark_of (Fetch At_submitLineCommentsInBatches (PostReview c cs) out) = [Batch cs]"
  "batch_mark_of (Fetch At_submitCommentsIndividually (PostReview c cs) out) = []"
  "batch_mark_of (Fetch At_submitReviewComment (PostReview c cs) out) = []"
  "review_mark_of (Fetch At_submitLineCommentsInBatches (PostReview c cs) out) = [BatchSent c cs out]"
  "review_mark_of (Fetch At_submitCommentsIndividually (PostReview c cs) out) = [SingleSent c cs out]"
  "review_mark_of (Fetch At_submitReviewComment (PostReview c cs) out) = []"
  "top_mark_of (Fetch st (PostReview c cs) out) = []"
  "any_review_of (Fetch st (PostReview c cs) out) = [(cs, out)]"
  by (simp_all add: batch_mark_of_def review_mark_of_def top_mark_of_def any_review_of_def)

text \<open>The fallback loop sends one review per comment and nothing else that is marked.\<close>

lemma individually_marks:
  "\<exists>ms. review_marks (submitCommentsIndividually w cs commit tr) = review_marks tr @ ms
        \<and> list_all2 (is_single_of commit) cs ms
        \<and> accepted_total ms = 0 \<and> failed_total ms = 0"
proof (induction cs arbitrary: tr)
  case Nil
  show ?case by (simp add: accepted_total_def failed_total_def)
next
  case (Cons c cs)
  let ?out = "respond w tr (PostReview commit [c])"
  let ?tr1 = "tr @ [Fetch At_submitCommentsIndividually (PostReview commit [c]) ?out]"
  obtain tr2 where step: "submitCommentsIndividually w (c # cs) commit tr = submitCommentsIndividually w cs commit tr2"
    and tr2: "review_marks tr2 = review_marks tr @ [SingleSent commit [c] ?out]"
    by (cases ?out) (simp_all add: fetch_eq)
  from Cons.IH[of tr2] obtain ms where ms:
    "review_marks (submitCommentsIndividually w cs commit tr2) = review_marks tr2 @ ms"
    "list_all2 (is_single_of commit) cs ms" "accepted_total ms = 0" "failed_total ms = 0"
    by blast
  have "review_marks (submitCommentsIndividually w (c # cs) commit tr)
          = review_marks tr @ (SingleSent commit [c] ?out # ms)"
    using step tr2 ms(1) by simp
  moreover have "list_all2 (is_single_of commit) (c # cs) (SingleSent commit [c] ?out # ms)"
    using ms(2) by (simp add: is_single_of_def)
  moreover have "accepted_total (SingleSent commit [c] ?out # ms) = 0"
    "failed_total (SingleSent commit [c] ?out # ms) = 0"
    using ms(3,4) by (simp_all add: accepted_total_def failed_total_def)
  ultimately show ?case by blast
qed

lemma individually_other_marks:
  "batch_marks (submitCommentsIndividually w cs commit tr) = batch_marks tr
   \<and> top_marks (submitCommentsIndividually w cs commit tr) = top_marks tr
   \<and> tallies (submitCommentsIndividually w cs commit tr) = tallies tr"
proof (induction cs arbitrary: tr)
  case Nil
  show ?case by simp
next
  case (Cons c cs)
  show ?case
    by (cases "respond w tr (PostReview commit [c])") (simp_all add: fetch_eq Cons.IH)
qed


declare chunks.simps [simp del] batches_from.simps [simp del]

lemma chunks_step:
  "i < length cs \<Longrightarrow>
     chunks batchSize (drop i cs) = take batchSize (drop i cs) # chunks batchSize (drop (i + batchSize) cs)"
  by (subst chunks.simps) (simp add: batchSize_def add.commute)

lemma chunks_Nil [simp]: "chunks n [] = []"
  by (subst chunks.simps) simp

lemma chunks_done: "\<not> i < length cs \<Longrightarrow> chunks n (drop i cs) = []"
  by simp

lemma chunks_rest_empty:
  "chunks batchSize (drop (i + batchSize) cs) = [] \<longleftrightarrow> \<not> i + batchSize < length cs"
  by (subst chunks.simps) (simp add: batchSize_def)

lemma with_pauses_Cons:
  "with_pauses (b # bs) = Batch b # (if bs = [] then [] else Pause # with_pauses bs)"
  by (cases bs) simp_all

lemma list_all2_take_singles:
  "list_all2 P b singles \<Longrightarrow> list_all2 P b (take (length b) (singles @ ms))
      \<and> drop (length b) (singles @ ms) = ms"
proof -
  assume a: "list_all2 P b singles"
  then have "length singles = length b" by (simp add: list_all2_lengthD)
  with a show ?thesis by simp
qed

text \<open>One turn of the batch loop: the batch is sent once; the fallback runs exactly when
  the answer has status 422; the counters take the batch as delivered when it was
  accepted and as failed otherwise.\<close>

lemma submit_batch_marks:
  assumes "submit_batch w b commit (s, f, tr) = (s', f', tr')"
  shows "\<exists>singles. review_marks tr' = review_marks tr
              @ BatchSent commit b (respond w tr (PostReview commit b)) # singles
          \<and> (if is_422 (respond w tr (PostReview commit b))
              then list_all2 (is_single_of commit) b singles else singles = [])
          \<and> accepted_total singles = 0 \<and> failed_total singles = 0
          \<and> s' = s + (if accepted (respond w tr (PostReview commit b)) then length b else 0)
          \<and> f' = f + (if accepted (respond w tr (PostReview commit b)) then 0 else length b)"
proof (cases "respond w tr (PostReview commit b)")
  case Throws
  with assms show ?thesis
    by (auto simp: submit_batch_def fetch_eq is_422_def accepted_def accepted_total_def failed_total_def)
next
  case (Response status msg)
  show ?thesis
  proof (cases "ok status")
    case True
    then have "status \<noteq> 422" by (auto simp: ok_def)
    with assms Response True show ?thesis
      by (auto simp: submit_batch_def fetch_eq is_422_def accepted_def accepted_total_def failed_total_def)
  next
    case False
    show ?thesis
    proof (cases "status = 422")
      case True
      let ?tr1 = "tr @ [Fetch At_submitLineCommentsInBatches (PostReview commit b) (Response status msg), Log Warn]"
      from assms Response False True
      have r: "s' = s" "f' = f + length b" "tr' = submitCommentsIndividually w b commit ?tr1"
        by (simp_all add: submit_batch_def fetch_eq)
      from individually_marks[of w b commit ?tr1] obtain singles where
        "review_marks tr' = review_marks ?tr1 @ singles" "list_all2 (is_single_of commit) b singles"
        "accepted_total singles = 0" "failed_total singles = 0"
        using r(3) by blast
      with r Response False True show ?thesis
        by (simp add: is_422_def accepted_def)
    next
      case no: False
      with assms Response False show ?thesis
        by (auto simp: submit_batch_def fetch_eq is_422_def accepted_def accepted_total_def failed_total_def)
    qed
  qed
qed

lemma submit_batch_other_marks:
  assumes "submit_batch w b commit (s, f, tr) = (s', f', tr')"
  shows "batch_marks tr' = batch_marks tr @ [Batch b] \<and> top_marks tr' = top_marks tr
         \<and> tallies tr' = tallies tr"
  using assms
  by (cases "respond w tr (PostReview commit b)")
     (auto simp: submit_batch_def fetch_eq individually_other_marks split: if_splits)

lemma totals_Cons_batch:
  "accepted_total (BatchSent c cs out # ms) = (if accepted out then length cs else 0) + accepted_total ms"
  "failed_total (BatchSent c cs out # ms) = (if accepted out then 0 else length cs) + failed_total ms"
  by (simp_all add: accepted_total_def failed_total_def)

lemma totals_append:
  "accepted_total (a @ b) = accepted_total a + accepted_total b"
  "failed_total (a @ b) = failed_total a + failed_total b"
  by (simp_all add: accepted_total_def failed_total_def)

text \<open>The batch loop from index \<open>i\<close> on.\<close>

lemma batches_from_marks:
  "\<exists>ms. review_marks (snd (snd (batches_from w cs commit i st))) = review_marks (snd (snd st)) @ ms
        \<and> rounds_ok commit (chunks batchSize (drop i cs)) ms
        \<and> fst (batches_from w cs commit i st) = fst st + accepted_total ms
        \<and> fst (snd (batches_from w cs commit i st)) = fst (snd st) + failed_total ms"
proof (induction w cs commit i st rule: batches_from.induct)
  case (1 w cs commit i st)
  obtain s f tr where st: "st = (s, f, tr)" by (cases st) auto
  show ?case
  proof (cases "i < length cs")
    case False
    then show ?thesis
      by (subst (1 2 3) batches_from.simps) (simp add: chunks_done accepted_total_def failed_total_def)
  next
    case True
    let ?b = "take batchSize (drop i cs)"
    let ?out = "respond w tr (PostReview commit ?b)"
    obtain s1 f1 tr1 where sb: "submit_batch w ?b commit st = (s1, f1, tr1)"
      by (cases "submit_batch w ?b commit st") auto
    let ?st2 = "(s1, f1, if i + batchSize < length cs then tr1 @ [Sleep 1500] else tr1)"
    have unfold: "batches_from w cs commit i st = batches_from w cs commit (i + batchSize) ?st2"
      using True sb by (subst batches_from.simps) simp
    from submit_batch_marks[OF sb[unfolded st]] obtain singles where sg:
      "review_marks tr1 = review_marks tr @ BatchSent commit ?b ?out # singles"
      "if is_422 ?out then list_all2 (is_single_of commit) ?b singles else singles = []"
      "accepted_total singles = 0" "failed_total singles = 0"
      "s1 = s + (if accepted ?out then length ?b else 0)"
      "f1 = f + (if accepted ?out then 0 else length ?b)"
      by blast
    from "1.IH"[OF True sb[symmetric] refl] obtain ms where ms:
      "review_marks (snd (snd (batches_from w cs commit (i + batchSize) ?st2))) = review_marks (snd (snd ?st2)) @ ms"
      "rounds_ok commit (chunks batchSize (drop (i + batchSize) cs)) ms"
      "fst (batches_from w cs commit (i + batchSize) ?st2) = fst ?st2 + accepted_total ms"
      "fst (snd (batches_from w cs commit (i + batchSize) ?st2)) = fst (snd ?st2) + failed_total ms"
      by blast
    let ?all = "BatchSent commit ?b ?out # singles @ ms"
    have rm: "review_marks (snd (snd ?st2)) = review_marks tr @ BatchSent commit ?b ?out # singles"
      using sg(1) by simp
    have 1: "review_marks (snd (snd (batches_from w cs commit i st))) = review_marks (snd (snd st)) @ ?all"
      using unfold ms(1) rm st by simp
    have 2: "rounds_ok commit (chunks batchSize (drop i cs)) ?all"
    proof (cases "is_422 ?out")
      case True
      with sg(2) have "list_all2 (is_single_of commit) ?b singles" by simp
      from list_all2_take_singles[OF this, of ms] True ms(2) show ?thesis
        by (simp add: chunks_step[OF \<open>i < length cs\<close>])
    next
      case False
      with sg(2) ms(2) show ?thesis by (simp add: chunks_step[OF \<open>i < length cs\<close>])
    qed
    have 3: "fst (batches_from w cs commit i st) = fst st + accepted_total ?all"
      using unfold ms(3) sg(3,5) st by (simp add: totals_Cons_batch totals_append)
    have 4: "fst (snd (batches_from w cs commit i st)) = fst (snd st) + failed_total ?all"
      using unfold ms(4) sg(4,6) st by (simp add: totals_Cons_batch totals_append)
    from 1 2 3 4 show ?thesis by blast
  qed
qed

lemma batches_from_other_marks:
  "batch_marks (snd (snd (batches_from w cs commit i st)))
      = batch_marks (snd (snd st)) @ with_pauses (chunks batchSize (drop i cs))
   \<and> top_marks (snd (snd (batches_from w cs commit i st))) = top_marks (snd (snd st))
   \<and> tallies (snd (snd (batches_from w cs commit i st))) = tallies (snd (snd st))"
proof (induction w cs commit i st rule: batches_from.induct)
  case (1 w cs commit i st)
  obtain s f tr where st: "st = (s, f, tr)" by (cases st) auto
  show ?case
  proof (cases "i < length cs")
    case False
    then show ?thesis
      by (subst (1 2 3) batches_from.simps) (simp add: chunks_done)
  next
    case True
    let ?b = "take batchSize (drop i cs)"
    obtain s1 f1 tr1 where sb: "submit_batch w ?b commit st = (s1, f1, tr1)"
      by (cases "submit_batch w ?b commit st") auto
    let ?st2 = "(s1, f1, if i + batchSize < length cs then tr1 @ [Sleep 1500] else tr1)"
    have unfold: "batches_from w cs commit i st = batches_from w cs commit (i + batchSize) ?st2"
      using True sb by (subst batches_from.simps) simp
    from submit_batch_other_marks[OF sb[unfolded st]]
    have o: "batch_marks tr1 = batch_marks tr @ [Batch ?b]" "top_marks tr1 = top_marks tr"
      "tallies tr1 = tallies tr" by simp_all
    note ih = "1.IH"[OF True sb[symmetric] refl]
    have "batch_marks (snd (snd ?st2)) @ with_pauses (chunks batchSize (drop (i + batchSize) cs))
            = batch_marks tr @ with_pauses (chunks batchSize (drop i cs))"
      using o(1) chunks_rest_empty[of i cs]
      by (simp add: chunks_step[OF True] with_pauses_Cons)
    with ih unfold o st show ?thesis by simp
  qed
qed


lemma batches_stage_marks:
  "\<exists>rs. review_marks (submitLineCommentsInBatches w cs commit tr) = review_marks tr @ rs
        \<and> rounds_ok commit (chunks batchSize cs) rs
        \<and> tallies (submitLineCommentsInBatches w cs commit tr)
            = tallies tr @ [(accepted_total rs, failed_total rs)]"
proof -
  obtain s f tr1 where r: "batches_from w cs commit 0 (0, 0, tr) = (s, f, tr1)"
    by (cases "batches_from w cs commit 0 (0, 0, tr)") auto
  from batches_from_marks[of w cs commit 0 "(0, 0, tr)"] r obtain rs where rs:
    "review_marks tr1 = review_marks tr @ rs" "rounds_ok commit (chunks batchSize cs) rs"
    "s = accepted_total rs" "f = failed_total rs" by auto
  from batches_from_other_marks[of w cs commit 0 "(0, 0, tr)"] r
  have "tallies tr1 = tallies tr" by simp
  with rs r show ?thesis by (auto simp: submitLineCommentsInBatches_def)
qed

lemma batches_stage_other_marks:
  "batch_marks (submitLineCommentsInBatches w cs commit tr)
      = batch_marks tr @ with_pauses (chunks batchSize cs)
   \<and> top_marks (submitLineCommentsInBatches w cs commit tr) = top_marks tr"
proof -
  obtain s f tr1 where r: "batches_from w cs commit 0 (0, 0, tr) = (s, f, tr1)"
    by (cases "batches_from w cs commit 0 (0, 0, tr)") auto
  from batches_from_other_marks[of w cs commit 0 "(0, 0, tr)"] r show ?thesis
    by (simp add: submitLineCommentsInBatches_def)
qed

text \<open>A top-level comment: one request; the call returns exactly when it was accepted.\<close>

lemma summary_marks:
  "top_marks (snd (submitReviewSummary w body tr))
      = top_marks tr @ [(body, respond w tr (PostIssueComment body))]
   \<and> returned (fst (submitReviewSummary w body tr)) = accepted (respond w tr (PostIssueComment body))
   \<and> batch_marks (snd (submitReviewSummary w body tr)) = batch_marks tr
   \<and> review_marks (snd (submitReviewSummary w body tr)) = review_marks tr
   \<and> tallies (snd (submitReviewSummary w body tr)) = tallies tr
   \<and> any_reviews (snd (submitReviewSummary w body tr)) = any_reviews tr"
  by (cases "respond w tr (PostIssueComment body)")
     (simp_all add: submitReviewSummary_def fetch_eq returned_def accepted_def)

lemma delivery_append_completed:
  "delivery bs1 ms1 True \<Longrightarrow> delivery bs2 ms2 c \<Longrightarrow> delivery (bs1 @ bs2) (ms1 @ ms2) c"
  by (induction bs1 ms1 True rule: delivery.induct) (auto split: if_splits)

lemma delivery_append_aborted:
  "delivery bs1 ms1 False \<Longrightarrow> delivery (bs1 @ bs2) ms1 False"
  by (induction bs1 ms1 False rule: delivery.induct) (auto split: if_splits)

lemma delivery_one:
  "delivery [body] [(body, out)] (accepted out)"
  by simp

text \<open>A loop that posts one comment per element and pauses after each accepted one.\<close>

lemma file_comments_marks:
  "\<exists>ms. top_marks (snd (submitFileComments w groups tr)) = top_marks tr @ ms
        \<and> delivery (map (\<lambda>g. formatFileLevelComment (fst g) (snd g)) groups) ms
             (returned (fst (submitFileComments w groups tr)))"
proof (induction groups arbitrary: tr)
  case Nil
  show ?case by (simp add: returned_def)
next
  case (Cons g groups)
  obtain path issues where g: "g = (path, issues)" by (cases g) auto
  let ?body = "formatFileLevelComment path issues"
  let ?out = "respond w tr (PostIssueComment ?body)"
  obtain r tr1 where r: "submitReviewSummary w ?body tr = (r, tr1)"
    by (cases "submitReviewSummary w ?body tr") auto
  from summary_marks[of w ?body tr] r
  have m: "top_marks tr1 = top_marks tr @ [(?body, ?out)]" "returned r = accepted ?out" by simp_all
  show ?case
  proof (cases r)
    case (Inl e)
    with m(2) have "\<not> accepted ?out" by (simp add: returned_def)
    with r Inl m(1) g show ?thesis by (simp add: returned_def)
  next
    case (Inr u)
    with m(2) have acc: "accepted ?out" by (simp add: returned_def)
    from Cons.IH[of "tr1 @ [Sleep 1000]"] obtain ms where ms:
      "top_marks (snd (submitFileComments w groups (tr1 @ [Sleep 1000]))) = top_marks (tr1 @ [Sleep 1000]) @ ms"
      "delivery (map (\<lambda>g. formatFileLevelComment (fst g) (snd g)) groups) ms
             (returned (fst (submitFileComments w groups (tr1 @ [Sleep 1000]))))" by blast
    have "top_marks (snd (submitFileComments w (g # groups) tr)) = top_marks tr @ ((?body, ?out) # ms)"
      using r Inr ms(1) m(1) g by simp
    moreover have "delivery (map (\<lambda>g. formatFileLevelComment (fst g) (snd g)) (g # groups)) ((?body, ?out) # ms)
             (returned (fst (submitFileComments w (g # groups) tr)))"
      using r Inr ms(2) acc g by simp
    ultimately show ?thesis by blast
  qed
qed

lemma file_comments_other_marks:
  "batch_marks (snd (submitFileComments w groups tr)) = batch_marks tr
   \<and> review_marks (snd (submitFileComments w groups tr)) = review_marks tr
   \<and> tallies (snd (submitFileComments w groups tr)) = tallies tr"
proof (induction groups arbitrary: tr)
  case Nil
  show ?case by simp
next
  case (Cons g groups)
  obtain path issues where g: "g = (path, issues)" by (cases g) auto
  obtain r tr1 where r: "submitReviewSummary w (formatFileLevelComment path issues) tr = (r, tr1)"
    by (cases "submitReviewSummary w (formatFileLevelComment path issues) tr") auto
  from summary_marks[of w "formatFileLevelComment path issues" tr] r
  have m: "batch_marks tr1 = batch_marks tr" "review_marks tr1 = review_marks tr"
    "tallies tr1 = tallies tr" by simp_all
  show ?case using r m g Cons.IH[of "tr1 @ [Sleep 1000]"] by (cases r) simp_all
qed

lemma skipped_groups_marks:
  "\<exists>ms. top_marks (snd (submit_skipped_groups w groups tr)) = top_marks tr @ ms
        \<and> delivery (map (\<lambda>g. skippedCommentText (fst g) (snd g)) groups) ms
             (returned (fst (submit_skipped_groups w groups tr)))"
proof (induction groups arbitrary: tr)
  case Nil
  show ?case by (simp add: returned_def)
next
  case (Cons g groups)
  obtain path items where g: "g = (path, items)" by (cases g) auto
  let ?body = "skippedCommentText path items"
  let ?out = "respond w tr (PostIssueComment ?body)"
  obtain r tr1 where r: "submitReviewSummary w ?body tr = (r, tr1)"
    by (cases "submitReviewSummary w ?body tr") auto
  from summary_marks[of w ?body tr] r
  have m: "top_marks tr1 = top_marks tr @ [(?body, ?out)]" "returned r = accepted ?out" by simp_all
  show ?case
  proof (cases r)
    case (Inl e)
    with m(2) have "\<not> accepted ?out" by (simp add: returned_def)
    with r Inl m(1) g show ?thesis by (simp add: returned_def)
  next
    case (Inr u)
    with m(2) have acc: "accepted ?out" by (simp add: returned_def)
    from Cons.IH[of "tr1 @ [Sleep 1000]"] obtain ms where ms:
      "top_marks (snd (submit_skipped_groups w groups (tr1 @ [Sleep 1000]))) = top_marks (tr1 @ [Sleep 1000]) @ ms"
      "delivery (map (\<lambda>g. skippedCommentText (fst g) (snd g)) groups) ms
             (returned (fst (submit_skipped_groups w groups (tr1 @ [Sleep 1000]))))" by blast
    have "top_marks (snd (submit_skipped_groups w (g # groups) tr)) = top_marks tr @ ((?body, ?out) # ms)"
      using r Inr ms(1) m(1) g by simp
    moreover have "delivery (map (\<lambda>g. skippedCommentText (fst g) (snd g)) (g # groups)) ((?body, ?out) # ms)
             (returned (fst (submit_skipped_groups w (g # groups) tr)))"
      using r Inr ms(2) acc g by simp
    ultimately show ?thesis by blast
  qed
qed

lemma skipped_groups_other_marks:
  "batch_marks (snd (submit_skipped_groups w groups tr)) = batch_marks tr
   \<and> review_marks (snd (submit_skipped_groups w groups tr)) = review_marks tr
   \<and> tallies (snd (submit_skipped_groups w groups tr)) = tallies tr"
proof (induction groups arbitrary: tr)
  case Nil
  show ?case by simp
next
  case (Cons g groups)
  obtain path items where g: "g = (path, items)" by (cases g) auto
  obtain r tr1 where r: "submitReviewSummary w (skippedCommentText path items) tr = (r, tr1)"
    by (cases "submitReviewSummary w (skippedCommentText path items) tr") auto
  from summary_marks[of w "skippedCommentText path items" tr] r
  have m: "batch_marks tr1 = batch_marks tr" "review_marks tr1 = review_marks tr"
    "tallies tr1 = tallies tr" by simp_all
  show ?case using r m g Cons.IH[of "tr1 @ [Sleep 1000]"] by (cases r) simp_all
qed

lemma group_skipped_Nil [simp]: "group_skipped [] = []"
  by (simp add: group_skipped_def)

lemma handle_skipped_marks:
  "\<exists>ms. top_marks (snd (handleSkippedComments w skipped tr)) = top_marks tr @ ms
        \<and> delivery (map (\<lambda>g. skippedCommentText (fst g) (snd g)) (group_skipped skipped)) ms
             (returned (fst (handleSkippedComments w skipped tr)))"
proof (cases "skipped = []")
  case True
  then show ?thesis by (simp add: handleSkippedComments_def returned_def)
next
  case False
  with skipped_groups_marks[of w "group_skipped skipped" "tr @ [Log Warn]"] show ?thesis
    by (simp add: handleSkippedComments_def)
qed

lemma handle_skipped_other_marks:
  "batch_marks (snd (handleSkippedComments w skipped tr)) = batch_marks tr
   \<and> review_marks (snd (handleSkippedComments w skipped tr)) = review_marks tr
   \<and> tallies (snd (handleSkippedComments w skipped tr)) = tallies tr"
  using skipped_groups_other_marks[of w "group_skipped skipped" "tr @ [Log Warn]"]
  by (simp add: handleSkippedComments_def)

lemma final_summary_marks:
  "top_marks (snd (submitFinalSummary w results a b c tr))
      = top_marks tr @ [(finalSummaryText (length results) (total_issues results) a b c,
                         respond w tr (PostIssueComment (finalSummaryText (length results) (total_issues results) a b c)))]
   \<and> returned (fst (submitFinalSummary w results a b c tr))
      = accepted (respond w tr (PostIssueComment (finalSummaryText (length results) (total_issues results) a b c)))
   \<and> batch_marks (snd (submitFinalSummary w results a b c tr)) = batch_marks tr
   \<and> review_marks (snd (submitFinalSummary w results a b c tr)) = review_marks tr
   \<and> tallies (snd (submitFinalSummary w results a b c tr)) = tallies tr"
  using summary_marks[of w "finalSummaryText (length results) (total_issues results) a b c" tr]
  by (simp add: submitFinalSummary_def)

text \<open>Steps 5 to 8: the batch stage always runs to its end, then the top-level comments
  are posted until one is refused.\<close>

lemma deliver_plan_top:
  "\<exists>ms. top_marks (snd (deliver_plan w results plan commit tr)) = top_marks tr @ ms
        \<and> delivery (expected_top_bodies results plan) ms
             (returned (fst (deliver_plan w results plan commit tr)))"
proof -
  let ?tr1 = "if length (lineComments plan) > 0
              then submitLineCommentsInBatches w (lineComments plan) commit tr else tr @ [Log Warn]"
  let ?fb = "map (\<lambda>g. formatFileLevelComment (fst g) (snd g)) (fileComments plan)"
  let ?sb = "map (\<lambda>g. skippedCommentText (fst g) (snd g)) (group_skipped (skippedComments plan))"
  let ?sum = "finalSummaryText (length results) (total_issues results)
          (length (lineComments plan)) (length (fileComments plan)) (length (skippedComments plan))"
  have t1: "top_marks ?tr1 = top_marks tr"
    using batches_stage_other_marks[of w "lineComments plan" commit tr] by simp
  obtain r2 tr2 where s2: "submitFileComments w (fileComments plan) ?tr1 = (r2, tr2)"
    by (cases "submitFileComments w (fileComments plan) ?tr1") auto
  from file_comments_marks[of w "fileComments plan" ?tr1] s2 t1 obtain ms2 where ms2:
    "top_marks tr2 = top_marks tr @ ms2" "delivery ?fb ms2 (returned r2)" by auto
  have stage2: "(if length (fileComments plan) > 0
               then submitFileComments w (fileComments plan) ?tr1 else (Inr (), ?tr1)) = (r2, tr2)"
    using s2 by (cases "fileComments plan") auto
  show ?thesis
  proof (cases r2)
    case (Inl e)
    with ms2(2) have "delivery (?fb @ (?sb @ [?sum])) ms2 False"
      by (simp add: returned_def delivery_append_aborted)
    moreover have "deliver_plan w results plan commit tr = (Inl e, tr2)"
      by (simp only: deliver_plan_def Let_def stage2 Inl prod.case sum.case)
    ultimately show ?thesis using ms2(1) by (simp add: expected_top_bodies_def returned_def)
  next
    case (Inr u)
    obtain r3 tr3 where s3: "handleSkippedComments w (skippedComments plan) tr2 = (r3, tr3)"
      by (cases "handleSkippedComments w (skippedComments plan) tr2") auto
    from handle_skipped_marks[of w "skippedComments plan" tr2] s3 obtain ms3 where ms3:
      "top_marks tr3 = top_marks tr2 @ ms3" "delivery ?sb ms3 (returned r3)" by auto
    have stage3: "(if length (skippedComments plan) > 0
                    then handleSkippedComments w (skippedComments plan) tr2 else (Inr (), tr2)) = (r3, tr3)"
      using s3 by (cases "skippedComments plan") (auto simp: handleSkippedComments_def)
    from ms2(2) Inr have d2: "delivery ?fb ms2 True" by (simp add: returned_def)
    show ?thesis
    proof (cases r3)
      case e3: (Inl e)
      with ms3(2) have "delivery (?sb @ [?sum]) ms3 False"
        by (simp add: returned_def delivery_append_aborted)
      with d2 have "delivery (?fb @ (?sb @ [?sum])) (ms2 @ ms3) False"
        by (rule delivery_append_completed)
      moreover have "deliver_plan w results plan commit tr = (Inl e, tr3)"
        by (simp only: deliver_plan_def Let_def stage2 Inr prod.case sum.case stage3 e3)
      ultimately show ?thesis using ms2(1) ms3(1) by (simp add: expected_top_bodies_def returned_def)
    next
      case u3: (Inr u')
      let ?r4 = "submitFinalSummary w results (length (lineComments plan))
                    (length (fileComments plan)) (length (skippedComments plan)) tr3"
      let ?out = "respond w tr3 (PostIssueComment ?sum)"
      from final_summary_marks[of w results _ _ _ tr3]
      have m4: "top_marks (snd ?r4) = top_marks tr3 @ [(?sum, ?out)]"
        "returned (fst ?r4) = accepted ?out" by simp_all
      have d4: "delivery [?sum] [(?sum, ?out)] (returned (fst ?r4))"
        using m4(2) by simp
      from ms3(2) u3 have d3: "delivery ?sb ms3 True" by (simp add: returned_def)
      from d3 d4 have "delivery (?sb @ [?sum]) (ms3 @ [(?sum, ?out)]) (returned (fst ?r4))"
        by (rule delivery_append_completed)
      with d2 have "delivery (?fb @ (?sb @ [?sum])) (ms2 @ (ms3 @ [(?sum, ?out)])) (returned (fst ?r4))"
        by (rule delivery_append_completed)
      moreover have "deliver_plan w results plan commit tr = ?r4"
        by (simp only: deliver_plan_def Let_def stage2 Inr prod.case sum.case stage3 u3)
      ultimately show ?thesis using ms2(1) ms3(1) m4(1) by (simp add: expected_top_bodies_def)
    qed
  qed
qed


lemma deliver_plan_after_batches:
  "batch_marks (snd (deliver_plan w results plan commit tr))
      = batch_marks (if length (lineComments plan) > 0
              then submitLineCommentsInBatches w (lineComments plan) commit tr else tr @ [Log Warn])
   \<and> review_marks (snd (deliver_plan w results plan commit tr))
      = review_marks (if length (lineComments plan) > 0
              then submitLineCommentsInBatches w (lineComments plan) commit tr else tr @ [Log Warn])
   \<and> tallies (snd (deliver_plan w results plan commit tr))
      = tallies (if length (lineComments plan) > 0
              then submitLineCommentsInBatches w (lineComments plan) commit tr else tr @ [Log Warn])"
proof -
  let ?tr1 = "if length (lineComments plan) > 0
              then submitLineCommentsInBatches w (lineComments plan) commit tr else tr @ [Log Warn]"
  obtain r2 tr2 where s2: "submitFileComments w (fileComments plan) ?tr1 = (r2, tr2)"
    by (cases "submitFileComments w (fileComments plan) ?tr1") auto
  from file_comments_other_marks[of w "fileComments plan" ?tr1] s2
  have m2: "batch_marks tr2 = batch_marks ?tr1" "review_marks tr2 = review_marks ?tr1"
    "tallies tr2 = tallies ?tr1" by simp_all
  have stage2: "(if length (fileComments plan) > 0
               then submitFileComments w (fileComments plan) ?tr1 else (Inr (), ?tr1)) = (r2, tr2)"
    using s2 by (cases "fileComments plan") auto
  show ?thesis
  proof (cases r2)
    case (Inl e)
    have "deliver_plan w results plan commit tr = (Inl e, tr2)"
      by (simp only: deliver_plan_def Let_def stage2 Inl prod.case sum.case)
    with m2 show ?thesis by simp
  next
    case (Inr u)
    obtain r3 tr3 where s3: "handleSkippedComments w (skippedComments plan) tr2 = (r3, tr3)"
      by (cases "handleSkippedComments w (skippedComments plan) tr2") auto
    from handle_skipped_other_marks[of w "skippedComments plan" tr2] s3
    have m3: "batch_marks tr3 = batch_marks tr2" "review_marks tr3 = review_marks tr2"
      "tallies tr3 = tallies tr2" by simp_all
    have stage3: "(if length (skippedComments plan) > 0
                    then handleSkippedComments w (skippedComments plan) tr2 else (Inr (), tr2)) = (r3, tr3)"
      using s3 by (cases "skippedComments plan") (auto simp: handleSkippedComments_def)
    show ?thesis
    proof (cases r3)
      case e3: (Inl e)
      have "deliver_plan w results plan commit tr = (Inl e, tr3)"
        by (simp only: deliver_plan_def Let_def stage2 Inr prod.case sum.case stage3 e3)
      with m2 m3 show ?thesis by simp
    next
      case u3: (Inr u')
      let ?r4 = "submitFinalSummary w results (length (lineComments plan))
                    (length (fileComments plan)) (length (skippedComments plan)) tr3"
      have "deliver_plan w results plan commit tr = ?r4"
        by (simp only: deliver_plan_def Let_def stage2 Inr prod.case sum.case stage3 u3)
      with m2 m3 final_summary_marks[of w results _ _ _ tr3] show ?thesis by simp
    qed
  qed
qed

lemma deliver_plan_batches:
  "batch_marks (snd (deliver_plan w results plan commit tr))
      = batch_marks tr @ with_pauses (chunks batchSize (lineComments plan))"
  using deliver_plan_after_batches[of w results plan commit tr]
    batches_stage_other_marks[of w "lineComments plan" commit tr]
  by (cases "lineComments plan") simp_all

lemma deliver_plan_reviews:
  "\<exists>rs. review_marks (snd (deliver_plan w results plan commit tr)) = review_marks tr @ rs
        \<and> rounds_ok commit (chunks batchSize (lineComments plan)) rs
        \<and> tallies (snd (deliver_plan w results plan commit tr))
            = tallies tr @ (if lineComments plan = [] then [] else [(accepted_total rs, failed_total rs)])"
proof (cases "lineComments plan = []")
  case True
  with deliver_plan_after_batches[of w results plan commit tr] show ?thesis by simp
next
  case False
  from batches_stage_marks[of w "lineComments plan" commit tr] obtain rs where
    "review_marks (submitLineCommentsInBatches w (lineComments plan) commit tr) = review_marks tr @ rs"
    "rounds_ok commit (chunks batchSize (lineComments plan)) rs"
    "tallies (submitLineCommentsInBatches w (lineComments plan) commit tr)
            = tallies tr @ [(accepted_total rs, failed_total rs)]" by blast
  with False deliver_plan_after_batches[of w results plan commit tr] show ?thesis by auto
qed

text \<open>The two prerequisite requests are in no view.\<close>

lemma prerequisites_marks:
  "batch_marks (snd (getPullRequestDiff w tr)) = batch_marks tr
   \<and> review_marks (snd (getPullRequestDiff w tr)) = review_marks tr
   \<and> top_marks (snd (getPullRequestDiff w tr)) = top_marks tr
   \<and> tallies (snd (getPullRequestDiff w tr)) = tallies tr
   \<and> any_reviews (snd (getPullRequestDiff w tr)) = any_reviews tr
   \<and> batch_marks (snd (getHeadCommitSha w tr)) = batch_marks tr
   \<and> review_marks (snd (getHeadCommitSha w tr)) = review_marks tr
   \<and> top_marks (snd (getHeadCommitSha w tr)) = top_marks tr
   \<and> tallies (snd (getHeadCommitSha w tr)) = tallies tr
   \<and> any_reviews (snd (getHeadCommitSha w tr)) = any_reviews tr"
  by (cases "respond w tr GetPullDiff"; cases "respond w tr GetPullJson")
     (simp_all add: getPullRequestDiff_def getHeadCommitSha_def fetch_eq split: option.splits)

text \<open>With both prerequisites fetched, the pipeline is the delivery of the plan; its
  handler adds one line to the log when the delivery throws.\<close>

lemma pipeline_after_prerequisites:
  assumes "fst (getPullRequestDiff w tr) = Inr diffText"
    and "fst (getHeadCommitSha w (snd (getPullRequestDiff w tr))) = Inr commit"
  shows "fst (submitBatchReviewComments w results tr)
           = fst (deliver_plan w results (prepareComments results (parseDiffPositionMap diffText)) commit
                    (snd (getHeadCommitSha w (snd (getPullRequestDiff w tr)))))"
    and "\<exists>logs. snd (submitBatchReviewComments w results tr)
           = snd (deliver_plan w results (prepareComments results (parseDiffPositionMap diffText)) commit
                    (snd (getHeadCommitSha w (snd (getPullRequestDiff w tr))))) @ logs
           \<and> (logs = [] \<or> logs = [Log Err])"
proof -
  obtain tr1 where d: "getPullRequestDiff w tr = (Inr diffText, tr1)"
    using assms(1) by (cases "getPullRequestDiff w tr") auto
  obtain tr2 where h: "getHeadCommitSha w tr1 = (Inr commit, tr2)"
    using assms(2) d by (cases "getHeadCommitSha w tr1") auto
  let ?dp = "deliver_plan w results (prepareComments results (parseDiffPositionMap diffText)) commit tr2"
  have body: "submitBatchReviewComments_body w results tr = ?dp"
    by (simp add: submitBatchReviewComments_body_def d h)
  have tr2: "snd (getHeadCommitSha w (snd (getPullRequestDiff w tr))) = tr2"
    by (simp add: d h)
  show "fst (submitBatchReviewComments w results tr)
           = fst (deliver_plan w results (prepareComments results (parseDiffPositionMap diffText)) commit
                    (snd (getHeadCommitSha w (snd (getPullRequestDiff w tr)))))"
    unfolding submitBatchReviewComments_def body tr2
    by (cases ?dp; cases "fst ?dp") auto
  show "\<exists>logs. snd (submitBatchReviewComments w results tr)
           = snd (deliver_plan w results (prepareComments results (parseDiffPositionMap diffText)) commit
                    (snd (getHeadCommitSha w (snd (getPullRequestDiff w tr))))) @ logs
           \<and> (logs = [] \<or> logs = [Log Err])"
    unfolding submitBatchReviewComments_def body tr2
    by (cases ?dp; cases "fst ?dp") auto
qed

lemma pipeline_views:
  assumes "fst (getPullRequestDiff w tr) = Inr diffText"
    and "fst (getHeadCommitSha w (snd (getPullRequestDiff w tr))) = Inr commit"
  shows "batch_marks (snd (submitBatchReviewComments w results tr))
           = batch_marks tr @ with_pauses (chunks batchSize
               (lineComments (prepareComments results (parseDiffPositionMap diffText))))"
    and "\<exists>rs. review_marks (snd (submitBatchReviewComments w results tr)) = review_marks tr @ rs
           \<and> rounds_ok commit (chunks batchSize
               (lineComments (prepareComments results (parseDiffPositionMap diffText)))) rs
           \<and> tallies (snd (submitBatchReviewComments w results tr))
               = tallies tr @ (if lineComments (prepareComments results (parseDiffPositionMap diffText)) = []
                               then [] else [(accepted_total rs, failed_total rs)])"
    and "\<exists>ms. top_marks (snd (submitBatchReviewComments w results tr)) = top_marks tr @ ms
           \<and> delivery (expected_top_bodies results (prepareComments results (parseDiffPositionMap diffText)))
                ms (returned (fst (submitBatchReviewComments w results tr)))"
proof -
  let ?plan = "prepareComments results (parseDiffPositionMap diffText)"
  let ?tr2 = "snd (getHeadCommitSha w (snd (getPullRequestDiff w tr)))"
  from prerequisites_marks[of w tr] prerequisites_marks[of w "snd (getPullRequestDiff w tr)"]
  have pre: "batch_marks ?tr2 = batch_marks tr" "review_marks ?tr2 = review_marks tr"
    "top_marks ?tr2 = top_marks tr" "tallies ?tr2 = tallies tr" by simp_all
  from pipeline_after_prerequisites[OF assms, of results] obtain logs where run:
    "fst (submitBatchReviewComments w results tr) = fst (deliver_plan w results ?plan commit ?tr2)"
    "snd (submitBatchReviewComments w results tr) = snd (deliver_plan w results ?plan commit ?tr2) @ logs"
    "logs = [] \<or> logs = [Log Err]" by blast
  from run(3) have quiet: "batch_marks logs = []" "review_marks logs = []" "top_marks logs = []"
    "tallies logs = []" by auto
  show "batch_marks (snd (submitBatchReviewComments w results tr))
           = batch_marks tr @ with_pauses (chunks batchSize (lineComments ?plan))"
    using deliver_plan_batches[of w results ?plan commit ?tr2] run(2) quiet pre by simp
  show "\<exists>rs. review_marks (snd (submitBatchReviewComments w results tr)) = review_marks tr @ rs
           \<and> rounds_ok commit (chunks batchSize (lineComments ?plan)) rs
           \<and> tallies (snd (submitBatchReviewComments w results tr))
               = tallies tr @ (if lineComments ?plan = [] then [] else [(accepted_total rs, failed_total rs)])"
    using deliver_plan_reviews[of w results ?plan commit ?tr2] run(2) quiet pre by simp
  show "\<exists>ms. top_marks (snd (submitBatchReviewComments w results tr)) = top_marks tr @ ms
           \<and> delivery (expected_top_bodies results ?plan) ms (returned (fst (submitBatchReviewComments w results tr)))"
    using deliver_plan_top[of w results ?plan commit ?tr2] run(1,2) quiet pre by simp
qed

subsection \<open>Batches of ten\<close>

lemma chunks_Cons:
  "xs \<noteq> [] \<Longrightarrow> chunks batchSize xs = take batchSize xs # chunks batchSize (drop batchSize xs)"
  by (subst chunks.simps) (simp add: batchSize_def)

lemma ceil_step_small: "0 < (n::nat) \<Longrightarrow> n < 10 \<Longrightarrow> (n + 9) div 10 = Suc 0"
  by (rule div_nat_eqI) simp_all

lemma ceil_step_large: "10 \<le> (n::nat) \<Longrightarrow> (n + 9) div 10 = Suc ((n - 10 + 9) div 10)"
proof -
  assume "10 \<le> n"
  then obtain m where "n = m + 10" using le_Suc_ex by (metis add.commute)
  then show ?thesis by simp
qed

lemma ceil_step: "0 < (n::nat) \<Longrightarrow> (n + 9) div 10 = Suc ((n - 10 + 9) div 10)"
  using ceil_step_small[of n] ceil_step_large[of n] by (cases "n < 10") simp_all

lemma chunks_length: "length (chunks batchSize xs) = (length xs + 9) div 10"
proof (induction "length xs" arbitrary: xs rule: less_induct)
  case less
  show ?case
  proof (cases "xs = []")
    case True
    then show ?thesis by simp
  next
    case False
    then have "length (drop batchSize xs) < length xs" by (simp add: batchSize_def)
    from less[OF this] have "length (chunks batchSize (drop batchSize xs)) = (length xs - 10 + 9) div 10"
      by (simp add: batchSize_def)
    moreover from False have "0 < length xs" by simp
    then have "(length xs + 9) div 10 = Suc ((length xs - 10 + 9) div 10)" by (rule ceil_step)
    ultimately show ?thesis using chunks_Cons[OF False] by simp
  qed
qed

lemma chunks_concat: "concat (chunks batchSize xs) = xs"
proof (induction "length xs" arbitrary: xs rule: less_induct)
  case less
  show ?case
  proof (cases "xs = []")
    case True
    then show ?thesis by simp
  next
    case False
    then have "length (drop batchSize xs) < length xs" by (simp add: batchSize_def)
    from less[OF this] chunks_Cons[OF False] show ?thesis by simp
  qed
qed

lemma chunks_empty_iff: "chunks batchSize xs = [] \<longleftrightarrow> xs = []"
  using chunks_Cons[of xs] by (cases "xs = []") simp_all

lemma chunks_sizes:
  "(\<forall>b \<in> set (butlast (chunks batchSize xs)). length b = 10)
   \<and> (xs \<noteq> [] \<longrightarrow> 0 < length (last (chunks batchSize xs)) \<and> length (last (chunks batchSize xs)) \<le> 10)"
proof (induction "length xs" arbitrary: xs rule: less_induct)
  case less
  show ?case
  proof (cases "xs = []")
    case True
    then show ?thesis by simp
  next
    case False
    then have lt: "length (drop batchSize xs) < length xs" by (simp add: batchSize_def)
    note ih = less[OF lt]
    show ?thesis
    proof (cases "drop batchSize xs = []")
      case True
      then have "chunks batchSize xs = [take batchSize xs]" using chunks_Cons[OF False] by simp
      with False show ?thesis by (simp add: batchSize_def)
    next
      case more: False
      then have ne: "chunks batchSize (drop batchSize xs) \<noteq> []" by (simp add: chunks_empty_iff)
      from more have "length (take batchSize xs) = 10" by (simp add: batchSize_def)
      with ih more ne chunks_Cons[OF False] show ?thesis by simp
    qed
  qed
qed

lemma pauses_count:
  "length (filter (\<lambda>m. m = Pause) (with_pauses bs)) = length bs - 1"
  by (induction bs rule: with_pauses.induct) simp_all

lemma batches_of_pauses:
  "concat (map (\<lambda>m. case m of Batch b \<Rightarrow> [b] | Pause \<Rightarrow> []) (with_pauses bs)) = bs"
  by (induction bs rule: with_pauses.induct) simp_all

subsection \<open>Runs against the example forges\<close>

lemma example_index: "parseDiffPositionMap example_diff = [(''src/app.ts'', [(2, 1), (3, 2)])]"
  by (simp add: example_diff_def newline_def parseDiffPositionMap_def parse_lines_def parse_line_def
      parse_init_def match_hunk_here_def expect_def digits1_def is_digit_def parseInt_def
      record_position_def)

lemma forge_diff:
  "getPullRequestDiff (forge ra ca) tr
     = (Inr example_diff, tr @ [Fetch At_getPullRequestDiff GetPullDiff (Response 200 example_diff)])"
  by (simp add: getPullRequestDiff_def fetch_eq forge_def ok_def)

lemma forge_head:
  "getHeadCommitSha (forge ra ca) tr
     = (Inr ''4f2a9c1'', tr @ [Fetch At_getHeadCommitSha GetPullJson (Response 200 ''4f2a9c1'')])"
  by (simp add: getHeadCommitSha_def fetch_eq forge_def ok_def)

lemma forge_respond [simp]:
  "respond (forge ra ca) h (PostReview c cs) = ra cs"
  "respond (forge ra ca) h (PostIssueComment body) = ca"
  "respond (forge ra ca) h GetPullJson = Response 200 ''4f2a9c1''"
  "respond (forge ra ca) h GetPullDiff = Response 200 example_diff"
  "head_sha (forge ra ca) body = Some body"
  by (simp_all add: forge_def)

lemma total_app [simp]: "total_issues [app_result issues] = length issues"
  by (simp add: total_issues_def app_result_def)

lemma plan_one_line_issue:
  "prepareComments [app_result [line_issue 2 msg]] [(''src/app.ts'', [(2, 1), (3, 2)])]
     = \<lparr>lineComments = [\<lparr>c_path = ''src/app.ts'', c_position = 1,
                           c_body = formatIssueComment (line_issue 2 msg)\<rparr>],
        fileComments = [], skippedComments = []\<rparr>"
  by (simp add: prepareComments_def prepare_result_def empty_plan_def app_result_def
      line_issue_def truthy_line_def place_issue_def findPositionInMap_def)

lemma plan_two_line_issues:
  "prepareComments [app_result [line_issue 2 msg, line_issue 3 msg']] [(''src/app.ts'', [(2, 1), (3, 2)])]
     = \<lparr>lineComments = [\<lparr>c_path = ''src/app.ts'', c_position = 1,
                           c_body = formatIssueComment (line_issue 2 msg)\<rparr>,
                        \<lparr>c_path = ''src/app.ts'', c_position = 2,
                           c_body = formatIssueComment (line_issue 3 msg')\<rparr>],
        fileComments = [], skippedComments = []\<rparr>"
  by (simp add: prepareComments_def prepare_result_def empty_plan_def app_result_def
      line_issue_def truthy_line_def place_issue_def findPositionInMap_def)

lemma plan_one_general_issue:
  "prepareComments [app_result [general_issue msg]] [(''src/app.ts'', [(2, 1), (3, 2)])]
     = \<lparr>lineComments = [], fileComments = [(''src/app.ts'', [general_issue msg])],
        skippedComments = []\<rparr>"
  by (simp add: prepareComments_def prepare_result_def empty_plan_def app_result_def
      general_issue_def truthy_line_def)

lemma place_same_issue:
  "findPositionInMap path l pm = Some p \<Longrightarrow> i_line issue = Some l \<Longrightarrow>
     foldl (place_issue pm path) acc (replicate n issue)
       = acc\<lparr>lineComments := lineComments acc
               @ replicate n \<lparr>c_path = path, c_position = p, c_body = formatIssueComment issue\<rparr>\<rparr>"
proof (induction n arbitrary: acc)
  case 0
  show ?case by simp
next
  case (Suc n)
  then show ?case by (simp add: place_issue_def replicate_app_Cons_same)
qed

lemma plan_many_line_issues:
  "prepareComments [app_result (replicate n (line_issue 2 msg))] [(''src/app.ts'', [(2, 1), (3, 2)])]
     = \<lparr>lineComments = replicate n \<lparr>c_path = ''src/app.ts'', c_position = 1,
                                       c_body = formatIssueComment (line_issue 2 msg)\<rparr>,
        fileComments = [], skippedComments = []\<rparr>"
proof -
  have f: "findPositionInMap ''src/app.ts'' 2 [(''src/app.ts'', [(2, 1), (3, 2)])] = Some 1"
    by (simp add: findPositionInMap_def)
  have l: "i_line (line_issue 2 msg) = Some 2" by (simp add: line_issue_def)
  have t: "truthy_line (i_line (line_issue 2 msg))" by (simp add: line_issue_def truthy_line_def)
  show ?thesis
    using place_same_issue[OF f l, of empty_plan n] t
    by (simp add: prepareComments_def prepare_result_def app_result_def empty_plan_def)
qed

lemma batches_single:
  assumes "cs \<noteq> []" "length cs \<le> 10"
  shows "batches_from w cs commit 0 st = submit_batch w cs commit st"
proof -
  obtain s f tr where sb: "submit_batch w cs commit st = (s, f, tr)"
    by (cases "submit_batch w cs commit st") auto
  have "batches_from w cs commit 0 st = batches_from w cs commit (0 + batchSize) (s, f, tr)"
    using assms sb by (subst batches_from.simps) (simp add: batchSize_def)
  also have "\<dots> = (s, f, tr)"
    using assms by (subst batches_from.simps) (simp add: batchSize_def)
  finally show ?thesis using sb by simp
qed

subsection \<open>Posting until the first refusal\<close>

lemma delivery_facts:
  "delivery bs ms c \<Longrightarrow>
     length ms \<le> length bs \<and> map fst ms = take (length ms) bs
     \<and> list_all (\<lambda>m. accepted (snd m)) (butlast ms)
     \<and> (c \<longleftrightarrow> length ms = length bs \<and> list_all (\<lambda>m. accepted (snd m)) ms)
     \<and> (length ms < length bs \<longrightarrow> ms \<noteq> [] \<and> \<not> accepted (snd (last ms)))"
proof (induction bs ms c rule: delivery.induct)
  case (1 ms completed)
  then show ?case by auto
next
  case (2 b bs completed)
  then show ?case by simp
next
  case (3 b bs m ms completed)
  show ?case
  proof (cases "accepted (snd m)")
    case True
    with "3.prems" have d: "delivery bs ms completed" and b: "fst m = b" by simp_all
    from "3.IH"[OF True d] b True show ?thesis by (cases ms) auto
  next
    case False
    with "3.prems" show ?thesis by auto
  qed
qed

lemma delivery_nonempty: "delivery (b # bs) ms c \<Longrightarrow> ms \<noteq> []"
  by (cases ms) simp_all

lemma expected_nonempty: "expected_top_bodies results plan \<noteq> []"
  by (simp add: expected_top_bodies_def)

lemma last_expected:
  "last (expected_top_bodies results plan)
     = finalSummaryText (length results) (total_issues results)
          (length (lineComments plan)) (length (fileComments plan)) (length (skippedComments plan))"
  by (simp add: expected_top_bodies_def)

subsection \<open>The single comment\<close>




subsection \<open>Failures and the log\<close>

lemma begins_with_append: "begins_with ev a \<Longrightarrow> begins_with ev (a @ b)"
  by (cases a) (simp_all add: begins_with_def)

lemma failures_logged_append:
  "failures_logged a \<Longrightarrow> failures_logged b \<Longrightarrow> failures_logged (a @ b)"
  by (induction a rule: failures_logged.induct)
     (auto simp: begins_with_append split: request.splits)

lemma logged_ext_append: "logged_ext tr (tr @ new) = failures_logged new"
  by (simp add: logged_ext_def)

lemma logged_ext_obtain:
  "logged_ext tr tr' \<Longrightarrow> \<exists>new. tr' = tr @ new \<and> failures_logged new"
  unfolding logged_ext_def by (metis append_take_drop_id)

lemma logged_ext_refl: "logged_ext tr tr"
  by (simp add: logged_ext_def)

lemma logged_ext_trans: "logged_ext a b \<Longrightarrow> logged_ext b c \<Longrightarrow> logged_ext a c"
proof -
  assume "logged_ext a b" "logged_ext b c"
  then obtain n1 n2 where "b = a @ n1" "failures_logged n1" "c = b @ n2" "failures_logged n2"
    using logged_ext_obtain by blast
  then have "c = a @ (n1 @ n2)" "failures_logged (n1 @ n2)"
    by (simp_all add: failures_logged_append)
  then show ?thesis using logged_ext_append by metis
qed

lemma logged_ext_step:
  "failures_logged new \<Longrightarrow> logged_ext (tr @ new) c \<Longrightarrow> logged_ext tr c"
  using logged_ext_trans[of tr "tr @ new" c] by (simp add: logged_ext_append)

lemma ends_refused_snoc:
  "ends_refused (h @ [Fetch At_submitReviewSummary (PostIssueComment b) out, Log Err]) = (\<not> accepted out)"
  by (simp add: ends_refused_def)

lemma logged_individually: "logged_ext tr (submitCommentsIndividually w cs commit tr)"
proof (induction cs arbitrary: tr)
  case Nil
  show ?case by (simp add: logged_ext_refl)
next
  case (Cons c cs)
  let ?out = "respond w tr (PostReview commit [c])"
  show ?case
  proof (cases ?out)
    case Throws
    have "failures_logged [Fetch At_submitCommentsIndividually (PostReview commit [c]) Throws, Log Warn]"
      by (simp add: begins_with_def)
    from logged_ext_step[OF this Cons.IH] Throws show ?thesis by (simp add: fetch_eq)
  next
    case (Response status msg)
    show ?thesis
    proof (cases "ok status")
      case True
      have "failures_logged [Fetch At_submitCommentsIndividually (PostReview commit [c]) (Response status msg), Sleep 500]"
        using True by (simp add: accepted_def)
      from logged_ext_step[OF this Cons.IH] Response True show ?thesis by (simp add: fetch_eq)
    next
      case False
      have "failures_logged [Fetch At_submitCommentsIndividually (PostReview commit [c]) (Response status msg), Log Warn, Sleep 500]"
        by (simp add: begins_with_def)
      from logged_ext_step[OF this Cons.IH] Response False show ?thesis by (simp add: fetch_eq)
    qed
  qed
qed

lemma logged_submit_batch:
  assumes "submit_batch w b commit (s, f, tr) = (s', f', tr')"
  shows "logged_ext tr tr'"
proof (cases "respond w tr (PostReview commit b)")
  case Throws
  have "failures_logged [Fetch At_submitLineCommentsInBatches (PostReview commit b) Throws, Log Warn]"
    by (simp add: begins_with_def)
  with assms Throws show ?thesis by (auto simp: submit_batch_def fetch_eq logged_ext_append)
next
  case (Response status msg)
  let ?f = "Fetch At_submitLineCommentsInBatches (PostReview commit b) (Response status msg)"
  show ?thesis
  proof (cases "ok status")
    case True
    have "failures_logged [?f]" using True by (simp add: accepted_def)
    with assms Response True show ?thesis by (auto simp: submit_batch_def fetch_eq logged_ext_append)
  next
    case False
    have l: "failures_logged [?f, Log Warn]" by (simp add: begins_with_def)
    show ?thesis
    proof (cases "status = 422")
      case True
      with assms Response False
      have "tr' = submitCommentsIndividually w b commit (tr @ [?f, Log Warn])"
        by (simp add: submit_batch_def fetch_eq)
      with logged_ext_step[OF l logged_individually[of "tr @ [?f, Log Warn]" w b commit]]
      show ?thesis by simp
    next
      case no: False
      with assms Response False have "tr' = tr @ [?f, Log Warn]"
        by (simp add: submit_batch_def fetch_eq)
      with l show ?thesis by (simp add: logged_ext_append)
    qed
  qed
qed

lemma logged_batches_from:
  "logged_ext (snd (snd st)) (snd (snd (batches_from w cs commit i st)))"
proof (induction w cs commit i st rule: batches_from.induct)
  case (1 w cs commit i st)
  obtain s f tr where st: "st = (s, f, tr)" by (cases st) auto
  show ?case
  proof (cases "i < length cs")
    case False
    then show ?thesis by (subst batches_from.simps) (simp add: logged_ext_refl)
  next
    case True
    let ?b = "take batchSize (drop i cs)"
    obtain s1 f1 tr1 where sb: "submit_batch w ?b commit st = (s1, f1, tr1)"
      by (cases "submit_batch w ?b commit st") auto
    let ?st2 = "(s1, f1, if i + batchSize < length cs then tr1 @ [Sleep 1500] else tr1)"
    have unfold: "batches_from w cs commit i st = batches_from w cs commit (i + batchSize) ?st2"
      using True sb by (subst batches_from.simps) simp
    have a: "logged_ext tr tr1" using logged_submit_batch[OF sb[unfolded st]] .
    have b: "logged_ext tr1 (snd (snd ?st2))" by (simp add: logged_ext_append logged_ext_refl)
    note c = "1.IH"[OF True sb[symmetric] refl]
    from logged_ext_trans[OF logged_ext_trans[OF a b] c] unfold st show ?thesis by simp
  qed
qed

lemma logged_batches_stage: "logged_ext tr (submitLineCommentsInBatches w cs commit tr)"
proof -
  obtain s f tr1 where r: "batches_from w cs commit 0 (0, 0, tr) = (s, f, tr1)"
    by (cases "batches_from w cs commit 0 (0, 0, tr)") auto
  from logged_batches_from[of "(0, 0, tr)" w cs commit 0] r have "logged_ext tr tr1" by simp
  moreover have "logged_ext tr1 (tr1 @ [Tally s f])" by (simp add: logged_ext_append)
  ultimately show ?thesis using r by (simp add: submitLineCommentsInBatches_def logged_ext_trans)
qed

text \<open>A top-level comment: logged when refused, and then the last thing in the trace.\<close>

lemma logged_summary:
  "logged_ext tr (snd (submitReviewSummary w body tr))
   \<and> (\<not> returned (fst (submitReviewSummary w body tr))
        \<longrightarrow> ends_refused (snd (submitReviewSummary w body tr)))"
proof (cases "respond w tr (PostIssueComment body)")
  case Throws
  then show ?thesis
    by (simp add: submitReviewSummary_def fetch_eq logged_ext_append begins_with_def
        ends_refused_snoc accepted_def)
next
  case (Response status msg)
  then show ?thesis
    by (cases "ok status")
       (simp_all add: submitReviewSummary_def fetch_eq logged_ext_append begins_with_def
          ends_refused_snoc accepted_def returned_def)
qed

lemma logged_file_comments:
  "logged_ext tr (snd (submitFileComments w groups tr))
   \<and> (\<not> returned (fst (submitFileComments w groups tr))
        \<longrightarrow> ends_refused (snd (submitFileComments w groups tr)))"
proof (induction groups arbitrary: tr)
  case Nil
  show ?case by (simp add: logged_ext_refl returned_def)
next
  case (Cons g groups)
  obtain path issues where g: "g = (path, issues)" by (cases g) auto
  obtain r tr1 where r: "submitReviewSummary w (formatFileLevelComment path issues) tr = (r, tr1)"
    by (cases "submitReviewSummary w (formatFileLevelComment path issues) tr") auto
  from logged_summary[of tr w "formatFileLevelComment path issues"] r
  have s: "logged_ext tr tr1" "\<not> returned r \<longrightarrow> ends_refused tr1" by simp_all
  show ?case
  proof (cases r)
    case (Inl e)
    with s r g show ?thesis by (simp add: returned_def)
  next
    case (Inr u)
    have "logged_ext tr1 (tr1 @ [Sleep 1000])" by (simp add: logged_ext_append)
    with s(1) have "logged_ext tr (tr1 @ [Sleep 1000])" by (rule logged_ext_trans)
    with Cons.IH[of "tr1 @ [Sleep 1000]"] r Inr g show ?thesis
      by (auto intro: logged_ext_trans)
  qed
qed

lemma logged_skipped_groups:
  "logged_ext tr (snd (submit_skipped_groups w groups tr))
   \<and> (\<not> returned (fst (submit_skipped_groups w groups tr))
        \<longrightarrow> ends_refused (snd (submit_skipped_groups w groups tr)))"
proof (induction groups arbitrary: tr)
  case Nil
  show ?case by (simp add: logged_ext_refl returned_def)
next
  case (Cons g groups)
  obtain path items where g: "g = (path, items)" by (cases g) auto
  obtain r tr1 where r: "submitReviewSummary w (skippedCommentText path items) tr = (r, tr1)"
    by (cases "submitReviewSummary w (skippedCommentText path items) tr") auto
  from logged_summary[of tr w "skippedCommentText path items"] r
  have s: "logged_ext tr tr1" "\<not> returned r \<longrightarrow> ends_refused tr1" by simp_all
  show ?case
  proof (cases r)
    case (Inl e)
    with s r g show ?thesis by (simp add: returned_def)
  next
    case (Inr u)
    have "logged_ext tr1 (tr1 @ [Sleep 1000])" by (simp add: logged_ext_append)
    with s(1) have "logged_ext tr (tr1 @ [Sleep 1000])" by (rule logged_ext_trans)
    with Cons.IH[of "tr1 @ [Sleep 1000]"] r Inr g show ?thesis
      by (auto intro: logged_ext_trans)
  qed
qed

lemma logged_handle_skipped:
  "logged_ext tr (snd (handleSkippedComments w skipped tr))
   \<and> (\<not> returned (fst (handleSkippedComments w skipped tr))
        \<longrightarrow> ends_refused (snd (handleSkippedComments w skipped tr)))"
proof (cases "skipped = []")
  case True
  then show ?thesis by (simp add: handleSkippedComments_def logged_ext_refl returned_def)
next
  case False
  have "logged_ext tr (tr @ [Log Warn])" by (simp add: logged_ext_append)
  with logged_skipped_groups[of "tr @ [Log Warn]" w "group_skipped skipped"] False
  show ?thesis by (auto simp: handleSkippedComments_def intro: logged_ext_trans)
qed

lemma logged_final_summary:
  "logged_ext tr (snd (submitFinalSummary w results a b c tr))
   \<and> (\<not> returned (fst (submitFinalSummary w results a b c tr))
        \<longrightarrow> ends_refused (snd (submitFinalSummary w results a b c tr)))"
  using logged_summary[of tr w "finalSummaryText (length results) (total_issues results) a b c"]
  by (simp add: submitFinalSummary_def)

lemma logged_deliver_plan:
  "logged_ext tr (snd (deliver_plan w results plan commit tr))
   \<and> (\<not> returned (fst (deliver_plan w results plan commit tr))
        \<longrightarrow> ends_refused (snd (deliver_plan w results plan commit tr)))"
proof -
  let ?tr1 = "if length (lineComments plan) > 0
              then submitLineCommentsInBatches w (lineComments plan) commit tr else tr @ [Log Warn]"
  have l1: "logged_ext tr ?tr1"
    using logged_batches_stage[of tr w "lineComments plan" commit]
    by (simp add: logged_ext_append)
  obtain r2 tr2 where s2: "submitFileComments w (fileComments plan) ?tr1 = (r2, tr2)"
    by (cases "submitFileComments w (fileComments plan) ?tr1") auto
  from logged_file_comments[of ?tr1 w "fileComments plan"] s2
  have m2: "logged_ext ?tr1 tr2" "\<not> returned r2 \<longrightarrow> ends_refused tr2" by simp_all
  from l1 m2(1) have l2: "logged_ext tr tr2" by (rule logged_ext_trans)
  have stage2: "(if length (fileComments plan) > 0
               then submitFileComments w (fileComments plan) ?tr1 else (Inr (), ?tr1)) = (r2, tr2)"
    using s2 by (cases "fileComments plan") auto
  show ?thesis
  proof (cases r2)
    case (Inl e)
    have "deliver_plan w results plan commit tr = (Inl e, tr2)"
      by (simp only: deliver_plan_def Let_def stage2 Inl prod.case sum.case)
    with l2 m2(2) Inl show ?thesis by (simp add: returned_def)
  next
    case (Inr u)
    obtain r3 tr3 where s3: "handleSkippedComments w (skippedComments plan) tr2 = (r3, tr3)"
      by (cases "handleSkippedComments w (skippedComments plan) tr2") auto
    from logged_handle_skipped[of tr2 w "skippedComments plan"] s3
    have m3: "logged_ext tr2 tr3" "\<not> returned r3 \<longrightarrow> ends_refused tr3" by simp_all
    from l2 m3(1) have l3: "logged_ext tr tr3" by (rule logged_ext_trans)
    have stage3: "(if length (skippedComments plan) > 0
                    then handleSkippedComments w (skippedComments plan) tr2 else (Inr (), tr2)) = (r3, tr3)"
      using s3 by (cases "skippedComments plan") (auto simp: handleSkippedComments_def)
    show ?thesis
    proof (cases r3)
      case e3: (Inl e)
      have "deliver_plan w results plan commit tr = (Inl e, tr3)"
        by (simp only: deliver_plan_def Let_def stage2 Inr prod.case sum.case stage3 e3)
      with l3 m3(2) e3 show ?thesis by (simp add: returned_def)
    next
      case u3: (Inr u')
      let ?r4 = "submitFinalSummary w results (length (lineComments plan))
                    (length (fileComments plan)) (length (skippedComments plan)) tr3"
      have "deliver_plan w results plan commit tr = ?r4"
        by (simp only: deliver_plan_def Let_def stage2 Inr prod.case sum.case stage3 u3)
      with l3 logged_final_summary[of tr3 w results] show ?thesis
        by (auto intro: logged_ext_trans)
    qed
  qed
qed

lemma logged_prerequisites:
  "logged_ext tr (snd (getPullRequestDiff w tr)) \<and> logged_ext tr (snd (getHeadCommitSha w tr))"
  by (cases "respond w tr GetPullDiff"; cases "respond w tr GetPullJson")
     (simp_all add: getPullRequestDiff_def getHeadCommitSha_def fetch_eq logged_ext_append
        split: option.splits)

lemma logged_pipeline:
  assumes "fst (getPullRequestDiff w tr) = Inr diffText"
    and "fst (getHeadCommitSha w (snd (getPullRequestDiff w tr))) = Inr commit"
  shows "logged_ext tr (snd (submitBatchReviewComments w results tr))"
    and "\<not> returned (fst (submitBatchReviewComments w results tr))
           \<longrightarrow> (\<exists>h. snd (submitBatchReviewComments w results tr) = h @ [Log Err] \<and> ends_refused h)"
proof -
  let ?plan = "prepareComments results (parseDiffPositionMap diffText)"
  let ?tr2 = "snd (getHeadCommitSha w (snd (getPullRequestDiff w tr)))"
  let ?dp = "deliver_plan w results ?plan commit ?tr2"
  obtain tr1 where d: "getPullRequestDiff w tr = (Inr diffText, tr1)"
    using assms(1) by (cases "getPullRequestDiff w tr") auto
  obtain tr2 where h: "getHeadCommitSha w tr1 = (Inr commit, tr2)"
    using assms(2) d by (cases "getHeadCommitSha w tr1") auto
  have tr2: "?tr2 = tr2" by (simp add: d h)
  have body: "submitBatchReviewComments_body w results tr = ?dp"
    by (simp add: submitBatchReviewComments_body_def d h)
  from logged_prerequisites[of tr w] logged_prerequisites[of "snd (getPullRequestDiff w tr)" w]
  have pre: "logged_ext tr ?tr2" by (blast intro: logged_ext_trans)
  from logged_deliver_plan[of ?tr2 w results ?plan commit]
  have dp: "logged_ext ?tr2 (snd ?dp)" "\<not> returned (fst ?dp) \<longrightarrow> ends_refused (snd ?dp)"
    by simp_all
  from pre dp(1) have all: "logged_ext tr (snd ?dp)" by (rule logged_ext_trans)
  obtain r tr3 where dpe: "?dp = (r, tr3)" by (cases ?dp) auto
  show "logged_ext tr (snd (submitBatchReviewComments w results tr))"
  proof (cases r)
    case (Inl e)
    have "logged_ext tr3 (tr3 @ [Log Err])" by (simp add: logged_ext_append)
    with all dpe have "logged_ext tr (tr3 @ [Log Err])" by (auto intro: logged_ext_trans)
    with Inl dpe body show ?thesis by (simp add: submitBatchReviewComments_def)
  next
    case (Inr u)
    with all dpe body show ?thesis by (simp add: submitBatchReviewComments_def)
  qed
  show "\<not> returned (fst (submitBatchReviewComments w results tr))
           \<longrightarrow> (\<exists>h. snd (submitBatchReviewComments w results tr) = h @ [Log Err] \<and> ends_refused h)"
  proof (cases r)
    case (Inl e)
    with dp(2) dpe have "ends_refused tr3" by (simp add: returned_def)
    moreover from Inl dpe body have "snd (submitBatchReviewComments w results tr) = tr3 @ [Log Err]"
      by (simp add: submitBatchReviewComments_def)
    ultimately show ?thesis by blast
  next
    case (Inr u)
    with dpe body show ?thesis by (simp add: submitBatchReviewComments_def returned_def)
  qed
qed

subsection \<open>The prerequisites\<close>

text \<open>
  C9. If the fetch of the diff text fails, or the fetch of the head commit fails after
  the diff was fetched (a rejected request, a response that is not a success, a body
  without \<open>head.sha\<close>), the batch pipeline throws that failure to its caller, and the run
  consists of the failed fetches and one line of the error log: it holds no review
  request of any call site and no top-level comment, so neither a batch, nor an
  individual resubmission, nor a file comment, nor a comment for skipped findings, nor
  the final summary is attempted.
\<close>

theorem prerequisite_failure_is_fatal:
  assumes "fst (getPullRequestDiff w tr) = Inl e
           \<or> (\<exists>d. fst (getPullRequestDiff w tr) = Inr d)
              \<and> fst (getHeadCommitSha w (snd (getPullRequestDiff w tr))) = Inl e"
  shows "fst (submitBatchReviewComments w results tr) = Inl e
         \<and> any_reviews (snd (submitBatchReviewComments w results tr)) = any_reviews tr
         \<and> top_marks (snd (submitBatchReviewComments w results tr)) = top_marks tr
         \<and> (snd (submitBatchReviewComments w results tr)
              = tr @ [Fetch At_getPullRequestDiff GetPullDiff (respond w tr GetPullDiff), Log Err]
            \<or> snd (submitBatchReviewComments w results tr)
              = tr @ [Fetch At_getPullRequestDiff GetPullDiff (respond w tr GetPullDiff),
                      Fetch At_getHeadCommitSha GetPullJson
                        (respond w (tr @ [Fetch At_getPullRequestDiff GetPullDiff (respond w tr GetPullDiff)])
                           GetPullJson),
                      Log Err])"
proof -
  let ?tr1 = "tr @ [Fetch At_getPullRequestDiff GetPullDiff (respond w tr GetPullDiff)]"
  have t1: "snd (getPullRequestDiff w tr) = ?tr1"
    by (cases "respond w tr GetPullDiff") (simp_all add: getPullRequestDiff_def fetch_eq)
  have t2: "snd (getHeadCommitSha w ?tr1)
              = ?tr1 @ [Fetch At_getHeadCommitSha GetPullJson (respond w ?tr1 GetPullJson)]"
    by (cases "respond w ?tr1 GetPullJson")
       (simp_all add: getHeadCommitSha_def fetch_eq split: option.splits)
  from assms show ?thesis
  proof
    assume "fst (getPullRequestDiff w tr) = Inl e"
    with t1 have "getPullRequestDiff w tr = (Inl e, ?tr1)" by (metis prod.collapse)
    then have "submitBatchReviewComments w results tr = (Inl e, ?tr1 @ [Log Err])"
      by (simp add: submitBatchReviewComments_def submitBatchReviewComments_body_def)
    then show ?thesis by simp
  next
    assume "(\<exists>d. fst (getPullRequestDiff w tr) = Inr d)
              \<and> fst (getHeadCommitSha w (snd (getPullRequestDiff w tr))) = Inl e"
    then obtain d where "fst (getPullRequestDiff w tr) = Inr d"
      "fst (getHeadCommitSha w ?tr1) = Inl e" using t1 by auto
    with t1 t2 have "getPullRequestDiff w tr = (Inr d, ?tr1)"
      "getHeadCommitSha w ?tr1 = (Inl e, ?tr1 @ [Fetch At_getHeadCommitSha GetPullJson (respond w ?tr1 GetPullJson)])"
      by (metis prod.collapse)+
    then have "submitBatchReviewComments w results tr
        = (Inl e, (?tr1 @ [Fetch At_getHeadCommitSha GetPullJson (respond w ?tr1 GetPullJson)]) @ [Log Err])"
      by (simp add: submitBatchReviewComments_def submitBatchReviewComments_body_def)
    then show ?thesis by simp
  qed
qed

theorem prerequisite_failure_is_fatal_witness:
  "fst (submitBatchReviewComments forge_down
          [app_result [line_issue 2 ''Unused variable'', general_issue ''Add tests'']] [])
     = Inl (ApiError 404 ''Not Found'')
   \<and> any_reviews (snd (submitBatchReviewComments forge_down
          [app_result [line_issue 2 ''Unused variable'', general_issue ''Add tests'']] [])) = []
   \<and> top_marks (snd (submitBatchReviewComments forge_down
          [app_result [line_issue 2 ''Unused variable'', general_issue ''Add tests'']] [])) = []
   \<and> fst (submitBatchReviewComments
            ((forge (\<lambda>cs. Response 200 []) (Response 201 []))\<lparr>head_sha := (\<lambda>body. None)\<rparr>)
            [app_result [line_issue 2 ''Unused variable'', general_issue ''Add tests'']] [])
     = Inl JsonError
   \<and> any_reviews (snd (submitBatchReviewComments
            ((forge (\<lambda>cs. Response 200 []) (Response 201 []))\<lparr>head_sha := (\<lambda>body. None)\<rparr>)
            [app_result [line_issue 2 ''Unused variable'', general_issue ''Add tests'']] [])) = []
   \<and> top_marks (snd (submitBatchReviewComments
            ((forge (\<lambda>cs. Response 200 []) (Response 201 []))\<lparr>head_sha := (\<lambda>body. None)\<rparr>)
            [app_result [line_issue 2 ''Unused variable'', general_issue ''Add tests'']] [])) = []"
proof -
  let ?v = "(forge (\<lambda>cs. Response 200 []) (Response 201 []))\<lparr>head_sha := (\<lambda>body. None)\<rparr>"
  have 1: "fst (getPullRequestDiff forge_down []) = Inl (ApiError 404 ''Not Found'')"
    by (simp add: getPullRequestDiff_def fetch_eq forge_down_def ok_def)
  have 2: "(\<exists>d. fst (getPullRequestDiff ?v []) = Inr d)
           \<and> fst (getHeadCommitSha ?v (snd (getPullRequestDiff ?v []))) = Inl JsonError"
    by (simp add: getPullRequestDiff_def getHeadCommitSha_def fetch_eq forge_def ok_def)
  from prerequisite_failure_is_fatal[of forge_down "[]" "ApiError 404 ''Not Found''"] 1
    prerequisite_failure_is_fatal[of ?v "[]" JsonError] 2
  show ?thesis by simp
qed

subsection \<open>Batches\<close>

text \<open>
  C7. With the diff and the head commit fetched and \<open>n > 0\<close> line comments planned, the
  batch submissions and the 1500 ms pauses of the run are, in their order, the batches
  of the planned list with a pause between two consecutive batches and none after the
  last one. The batches are the planned list cut into pieces of ten: there are
  \<open>\<lceil>n / 10\<rceil>\<close> of them, each of ten comments except the last, which has between one and
  ten, and there are \<open>\<lceil>n / 10\<rceil> - 1\<close> pauses. Individual resubmissions are not counted
  here, and the answers of the forge do not matter. For 25 comments the batches have
  10, 10 and 5 comments, with two pauses.
\<close>

theorem batches_of_ten_with_pauses:
  assumes "fst (getPullRequestDiff w tr) = Inr diffText"
    and "fst (getHeadCommitSha w (snd (getPullRequestDiff w tr))) = Inr commit"
    and "cs = lineComments (prepareComments results (parseDiffPositionMap diffText))"
    and "0 < length cs"
  shows "batch_marks (snd (submitBatchReviewComments w results tr))
           = batch_marks tr @ with_pauses (chunks batchSize cs)
         \<and> length (chunks batchSize cs) = (length cs + 9) div 10
         \<and> (\<forall>b \<in> set (butlast (chunks batchSize cs)). length b = 10)
         \<and> 0 < length (last (chunks batchSize cs))
         \<and> length (last (chunks batchSize cs)) \<le> 10
         \<and> concat (chunks batchSize cs) = cs
         \<and> length (filter (\<lambda>m. m = Pause) (with_pauses (chunks batchSize cs)))
             = (length cs + 9) div 10 - 1"
proof -
  from assms(4) have ne: "cs \<noteq> []" by auto
  have "batch_marks (snd (submitBatchReviewComments w results tr))
           = batch_marks tr @ with_pauses (chunks batchSize cs)"
    using pipeline_views(1)[OF assms(1,2), of results] assms(3) by simp
  moreover have "length (filter (\<lambda>m. m = Pause) (with_pauses (chunks batchSize cs)))
             = (length cs + 9) div 10 - 1"
    by (simp add: pauses_count chunks_length)
  ultimately show ?thesis
    using chunks_length[of cs] chunks_sizes[of cs] chunks_concat[of cs] ne by simp
qed

theorem batches_of_ten_with_pauses_witness:
  "map (\<lambda>m. case m of Batch b \<Rightarrow> Some (length b) | Pause \<Rightarrow> None)
       (batch_marks (snd (submitBatchReviewComments
                            (forge (\<lambda>cs. Response 200 []) (Response 201 []))
                            [app_result (replicate 25 (line_issue 2 ''Unused variable''))] [])))
     = [Some 10, None, Some 10, None, Some 5]
   \<and> (25 + 9) div 10 = (3::nat)"
proof -
  let ?w = "forge (\<lambda>cs. Response 200 []) (Response 201 [])"
  let ?c = "\<lparr>c_path = ''src/app.ts'', c_position = 1,
              c_body = formatIssueComment (line_issue 2 ''Unused variable'')\<rparr>"
  have d: "fst (getPullRequestDiff ?w []) = Inr example_diff" by (simp add: forge_diff)
  have h: "fst (getHeadCommitSha ?w (snd (getPullRequestDiff ?w []))) = Inr ''4f2a9c1''"
    by (simp add: forge_diff forge_head)
  have cs: "replicate 25 ?c = lineComments (prepareComments
              [app_result (replicate 25 (line_issue 2 ''Unused variable''))]
              (parseDiffPositionMap example_diff))"
    by (simp add: example_index plan_many_line_issues)
  have n: "0 < length (replicate 25 ?c)" by simp
  have ch: "chunks batchSize (replicate 25 ?c) = [replicate 10 ?c, replicate 10 ?c, replicate 5 ?c]"
    by (simp add: chunks.simps batchSize_def)
  from batches_of_ten_with_pauses[OF d h cs n] ch show ?thesis by simp
qed

text \<open>
  C8. With the diff and the head commit fetched, the review requests of the batch stage
  follow the batches of the planned list, each sent once and in order. After a batch
  answered with status 422, every comment of that batch is submitted as a review of its
  own, in order and whatever the outcomes of these submissions (refused or failed ones
  included), and then the next batch is sent. After a batch with any other outcome the
  next request is the next batch: no individual resubmission and no second attempt. The
  tally written at the end of the stage counts the comments of every batch that was not
  accepted as failed.
\<close>

theorem fallback_after_422_only:
  assumes "fst (getPullRequestDiff w tr) = Inr diffText"
    and "fst (getHeadCommitSha w (snd (getPullRequestDiff w tr))) = Inr commit"
    and "cs = lineComments (prepareComments results (parseDiffPositionMap diffText))"
  shows "\<exists>rs. review_marks (snd (submitBatchReviewComments w results tr)) = review_marks tr @ rs
           \<and> rounds_ok commit (chunks batchSize cs) rs
           \<and> tallies (snd (submitBatchReviewComments w results tr))
               = tallies tr @ (if cs = [] then [] else [(accepted_total rs, failed_total rs)])"
  using pipeline_views(2)[OF assms(1,2), of results] assms(3) by simp

theorem fallback_after_422_only_witness:
  "review_marks (snd (submitBatchReviewComments (forge picky (Response 201 []))
                   [app_result [line_issue 2 ''Unused variable'', line_issue 3 ''Missing check'']] []))
     = [BatchSent ''4f2a9c1''
          [\<lparr>c_path = ''src/app.ts'', c_position = 1,
             c_body = formatIssueComment (line_issue 2 ''Unused variable'')\<rparr>,
           \<lparr>c_path = ''src/app.ts'', c_position = 2,
             c_body = formatIssueComment (line_issue 3 ''Missing check'')\<rparr>]
          (Response 422 ''Unprocessable Entity''),
        SingleSent ''4f2a9c1''
          [\<lparr>c_path = ''src/app.ts'', c_position = 1,
             c_body = formatIssueComment (line_issue 2 ''Unused variable'')\<rparr>]
          (Response 200 []),
        SingleSent ''4f2a9c1''
          [\<lparr>c_path = ''src/app.ts'', c_position = 2,
             c_body = formatIssueComment (line_issue 3 ''Missing check'')\<rparr>]
          (Response 500 ''Server Error'')]
   \<and> tallies (snd (submitBatchReviewComments (forge picky (Response 201 []))
                   [app_result [line_issue 2 ''Unused variable'', line_issue 3 ''Missing check'']] []))
     = [(0, 2)]
   \<and> review_marks (snd (submitBatchReviewComments
                   (forge (\<lambda>cs. Response 500 ''Server Error'') (Response 201 []))
                   [app_result [line_issue 2 ''Unused variable'', line_issue 3 ''Missing check'']] []))
     = [BatchSent ''4f2a9c1''
          [\<lparr>c_path = ''src/app.ts'', c_position = 1,
             c_body = formatIssueComment (line_issue 2 ''Unused variable'')\<rparr>,
           \<lparr>c_path = ''src/app.ts'', c_position = 2,
             c_body = formatIssueComment (line_issue 3 ''Missing check'')\<rparr>]
          (Response 500 ''Server Error'')]"
proof -
  let ?w = "forge picky (Response 201 [])"
  let ?v = "forge (\<lambda>cs. Response 500 ''Server Error'') (Response 201 [])"
  let ?rs = "[app_result [line_issue 2 ''Unused variable'', line_issue 3 ''Missing check'']]"
  let ?c1 = "\<lparr>c_path = ''src/app.ts'', c_position = 1,
             c_body = formatIssueComment (line_issue 2 ''Unused variable'')\<rparr>"
  let ?c2 = "\<lparr>c_path = ''src/app.ts'', c_position = 2,
             c_body = formatIssueComment (line_issue 3 ''Missing check'')\<rparr>"
  have d: "fst (getPullRequestDiff ?w []) = Inr example_diff"
    "fst (getPullRequestDiff ?v []) = Inr example_diff" by (simp_all add: forge_diff)
  have h: "fst (getHeadCommitSha ?w (snd (getPullRequestDiff ?w []))) = Inr ''4f2a9c1''"
    "fst (getHeadCommitSha ?v (snd (getPullRequestDiff ?v []))) = Inr ''4f2a9c1''"
    by (simp_all add: forge_diff forge_head)
  have cs: "[?c1, ?c2] = lineComments (prepareComments ?rs (parseDiffPositionMap example_diff))"
    by (simp add: example_index plan_two_line_issues)
  have ch: "chunks batchSize [?c1, ?c2] = [[?c1, ?c2]]"
    by (simp add: chunks.simps batchSize_def)
  from fallback_after_422_only[OF d(1) h(1) cs] ch obtain rs where rs:
    "review_marks (snd (submitBatchReviewComments ?w ?rs [])) = rs"
    "rounds_ok ''4f2a9c1'' [[?c1, ?c2]] rs"
    "tallies (snd (submitBatchReviewComments ?w ?rs [])) = [(accepted_total rs, failed_total rs)]"
    by auto
  from fallback_after_422_only[OF d(2) h(2) cs] ch obtain qs where qs:
    "review_marks (snd (submitBatchReviewComments ?v ?rs [])) = qs"
    "rounds_ok ''4f2a9c1'' [[?c1, ?c2]] qs" by auto
  have run_w: "review_marks (snd (submitBatchReviewComments ?w ?rs []))
      = [BatchSent ''4f2a9c1'' [?c1, ?c2] (Response 422 ''Unprocessable Entity''),
         SingleSent ''4f2a9c1'' [?c1] (Response 200 []),
         SingleSent ''4f2a9c1'' [?c2] (Response 500 ''Server Error'')]"
    by (simp add: submitBatchReviewComments_def submitBatchReviewComments_body_def forge_diff
        forge_head example_index plan_two_line_issues deliver_plan_def submitReviewSummary_def
        submitLineCommentsInBatches_def batches_single submit_batch_def picky_def
        submitFinalSummary_def fetch_eq ok_def)
  have run_v: "review_marks (snd (submitBatchReviewComments ?v ?rs []))
      = [BatchSent ''4f2a9c1'' [?c1, ?c2] (Response 500 ''Server Error'')]"
    by (simp add: submitBatchReviewComments_def submitBatchReviewComments_body_def forge_diff
        forge_head example_index plan_two_line_issues deliver_plan_def submitReviewSummary_def
        submitLineCommentsInBatches_def batches_single submit_batch_def
        submitFinalSummary_def fetch_eq ok_def)
  from rs(1) run_w have rs_eq: "rs = [BatchSent ''4f2a9c1'' [?c1, ?c2] (Response 422 ''Unprocessable Entity''),
         SingleSent ''4f2a9c1'' [?c1] (Response 200 []),
         SingleSent ''4f2a9c1'' [?c2] (Response 500 ''Server Error'')]" by simp
  have "accepted_total rs = 0" "failed_total rs = 2"
    unfolding rs_eq by (simp_all add: accepted_total_def failed_total_def accepted_def ok_def)
  with rs(3) have "tallies (snd (submitBatchReviewComments ?w ?rs [])) = [(0, 2)]" by simp
  with run_w run_v show ?thesis by simp
qed

subsection \<open>The later stages\<close>

text \<open>
  C2, as the code has it. With the diff and the head commit fetched, a refused or failed
  review request of the batch stage, of a batch or of an individual resubmission, is
  caught and a warning is logged right after it; the comments of every batch that was not
  accepted are counted as failed in the tally of the stage, which the outcomes of the
  individual resubmissions do not change. Whatever happens in the batch stage, every
  batch of the plan is submitted and the run goes on to the top-level comments: one per
  file group, one per file with skipped findings, then the final summary. These are
  posted in that order until one is not accepted. A refused or failed top-level comment
  is logged as an error and thrown to the caller, and nothing follows it but the error
  that the caller's handler logs: every comment posted before the last one was accepted,
  the run stops short of the expected list only after a comment that was not accepted,
  and it returns normally exactly when all expected comments, the final summary
  included, were posted and accepted. So the final summary is attempted exactly when
  every top-level comment before it was accepted.
\<close>

theorem top_level_failure_stops_the_run:
  assumes "fst (getPullRequestDiff w tr) = Inr diffText"
    and "fst (getHeadCommitSha w (snd (getPullRequestDiff w tr))) = Inr commit"
  shows "(\<exists>ms. top_marks (snd (submitBatchReviewComments w results tr)) = top_marks tr @ ms
          \<and> ms \<noteq> []
          \<and> length ms \<le> length (expected_top_bodies results
                                  (prepareComments results (parseDiffPositionMap diffText)))
          \<and> map fst ms = take (length ms) (expected_top_bodies results
                                  (prepareComments results (parseDiffPositionMap diffText)))
          \<and> list_all (\<lambda>m. accepted (snd m)) (butlast ms)
          \<and> (length ms < length (expected_top_bodies results
                                  (prepareComments results (parseDiffPositionMap diffText)))
              \<longrightarrow> \<not> accepted (snd (last ms)))
          \<and> (returned (fst (submitBatchReviewComments w results tr))
              \<longleftrightarrow> length ms = length (expected_top_bodies results
                                  (prepareComments results (parseDiffPositionMap diffText)))
                  \<and> accepted (snd (last ms)))
          \<and> batch_marks (snd (submitBatchReviewComments w results tr))
              = batch_marks tr @ with_pauses (chunks batchSize
                  (lineComments (prepareComments results (parseDiffPositionMap diffText)))))
       \<and> (\<exists>new. snd (submitBatchReviewComments w results tr) = tr @ new \<and> failures_logged new)
       \<and> (\<exists>rs. review_marks (snd (submitBatchReviewComments w results tr)) = review_marks tr @ rs
              \<and> tallies (snd (submitBatchReviewComments w results tr))
                  = tallies tr
                    @ (if lineComments (prepareComments results (parseDiffPositionMap diffText)) = []
                       then [] else [(accepted_total rs, failed_total rs)]))
       \<and> (\<not> returned (fst (submitBatchReviewComments w results tr))
            \<longrightarrow> (\<exists>h. snd (submitBatchReviewComments w results tr) = h @ [Log Err]
                      \<and> ends_refused h))"
proof -
  let ?exp = "expected_top_bodies results (prepareComments results (parseDiffPositionMap diffText))"
  from pipeline_views(3)[OF assms, of results] obtain ms where ms:
    "top_marks (snd (submitBatchReviewComments w results tr)) = top_marks tr @ ms"
    "delivery ?exp ms (returned (fst (submitBatchReviewComments w results tr)))" by blast
  obtain b bs where e: "?exp = b # bs" using expected_nonempty[of results] by (cases ?exp) auto
  from ms(2) e have ne: "ms \<noteq> []" using delivery_nonempty by metis
  from delivery_facts[OF ms(2)] have f:
    "length ms \<le> length ?exp" "map fst ms = take (length ms) ?exp"
    "list_all (\<lambda>m. accepted (snd m)) (butlast ms)"
    "returned (fst (submitBatchReviewComments w results tr))
       \<longleftrightarrow> length ms = length ?exp \<and> list_all (\<lambda>m. accepted (snd m)) ms"
    "length ms < length ?exp \<longrightarrow> ms \<noteq> [] \<and> \<not> accepted (snd (last ms))" by blast+
  from ne have "list_all (\<lambda>m. accepted (snd m)) ms
        \<longleftrightarrow> list_all (\<lambda>m. accepted (snd m)) (butlast ms) \<and> accepted (snd (last ms))"
    by (induction ms rule: rev_induct) simp_all
  with f(3) have "list_all (\<lambda>m. accepted (snd m)) ms \<longleftrightarrow> accepted (snd (last ms))" by simp
  with f ms(1) ne pipeline_views(1)[OF assms, of results]
  have tops: "\<exists>ms. top_marks (snd (submitBatchReviewComments w results tr)) = top_marks tr @ ms
            \<and> ms \<noteq> []
            \<and> length ms \<le> length (expected_top_bodies results
                                    (prepareComments results (parseDiffPositionMap diffText)))
            \<and> map fst ms = take (length ms) (expected_top_bodies results
                                    (prepareComments results (parseDiffPositionMap diffText)))
            \<and> list_all (\<lambda>m. accepted (snd m)) (butlast ms)
            \<and> (length ms < length (expected_top_bodies results
                                    (prepareComments results (parseDiffPositionMap diffText)))
                \<longrightarrow> \<not> accepted (snd (last ms)))
            \<and> (returned (fst (submitBatchReviewComments w results tr))
                \<longleftrightarrow> length ms = length (expected_top_bodies results
                                    (prepareComments results (parseDiffPositionMap diffText)))
                    \<and> accepted (snd (last ms)))
            \<and> batch_marks (snd (submitBatchReviewComments w results tr))
                = batch_marks tr @ with_pauses (chunks batchSize
                    (lineComments (prepareComments results (parseDiffPositionMap diffText))))"
    by blast
  from logged_pipeline(1)[OF assms, of results]
  have logs: "\<exists>new. snd (submitBatchReviewComments w results tr) = tr @ new \<and> failures_logged new"
    by (rule logged_ext_obtain)
  from pipeline_views(2)[OF assms, of results]
  have counted: "\<exists>rs. review_marks (snd (submitBatchReviewComments w results tr)) = review_marks tr @ rs
              \<and> tallies (snd (submitBatchReviewComments w results tr))
                  = tallies tr
                    @ (if lineComments (prepareComments results (parseDiffPositionMap diffText)) = []
                       then [] else [(accepted_total rs, failed_total rs)])"
    by blast
  from tops logs counted logged_pipeline(2)[OF assms, of results] show ?thesis by blast
qed

theorem top_level_failure_stops_the_run_witness:
  "(\<exists>ms. top_marks (snd (submitBatchReviewComments
                           (forge (\<lambda>cs. Throws) (Response 201 []))
                           [app_result [line_issue 2 ''Unused variable'']] [])) = ms
        \<and> map fst ms = [finalSummaryText 1 1 1 0 0]
        \<and> list_all (\<lambda>m. accepted (snd m)) (butlast ms)
        \<and> returned (fst (submitBatchReviewComments
                           (forge (\<lambda>cs. Throws) (Response 201 []))
                           [app_result [line_issue 2 ''Unused variable'']] [])))
   \<and> failures_logged (snd (submitBatchReviewComments
                           (forge (\<lambda>cs. Throws) (Response 201 []))
                           [app_result [line_issue 2 ''Unused variable'']] []))
   \<and> tallies (snd (submitBatchReviewComments
                           (forge (\<lambda>cs. Throws) (Response 201 []))
                           [app_result [line_issue 2 ''Unused variable'']] [])) = [(0, 1)]
   \<and> (\<exists>h. snd (submitBatchReviewComments
                  (forge (\<lambda>cs. Response 200 []) (Response 500 ''Server Error''))
                  [app_result [general_issue ''Add tests'']] []) = h @ [Log Err]
        \<and> ends_refused h)"
proof -
  let ?w = "forge (\<lambda>cs. Throws) (Response 201 [])"
  let ?v = "forge (\<lambda>cs. Response 200 []) (Response 500 ''Server Error'')"
  let ?rs = "[app_result [line_issue 2 ''Unused variable'']]"
  let ?gs = "[app_result [general_issue ''Add tests'']]"
  let ?c = "\<lparr>c_path = ''src/app.ts'', c_position = 1,
              c_body = formatIssueComment (line_issue 2 ''Unused variable'')\<rparr>"
  have d: "fst (getPullRequestDiff ?w []) = Inr example_diff"
    "fst (getPullRequestDiff ?v []) = Inr example_diff" by (simp_all add: forge_diff)
  have h: "fst (getHeadCommitSha ?w (snd (getPullRequestDiff ?w []))) = Inr ''4f2a9c1''"
    "fst (getHeadCommitSha ?v (snd (getPullRequestDiff ?v []))) = Inr ''4f2a9c1''"
    by (simp_all add: forge_diff forge_head)
  have e: "expected_top_bodies ?rs (prepareComments ?rs (parseDiffPositionMap example_diff))
             = [finalSummaryText 1 1 1 0 0]"
    by (simp add: expected_top_bodies_def example_index plan_one_line_issue)
  have p: "lineComments (prepareComments ?rs (parseDiffPositionMap example_diff)) = [?c]"
    by (simp add: example_index plan_one_line_issue)
  note t = top_level_failure_stops_the_run[OF d(1) h(1), of ?rs]
  from t obtain ms where ms:
    "top_marks (snd (submitBatchReviewComments ?w ?rs [])) = ms" "ms \<noteq> []"
    "length ms \<le> 1" "map fst ms = take (length ms) [finalSummaryText 1 1 1 0 0]"
    "list_all (\<lambda>m. accepted (snd m)) (butlast ms)"
    "returned (fst (submitBatchReviewComments ?w ?rs [])) \<longleftrightarrow> length ms = 1 \<and> accepted (snd (last ms))"
    unfolding e by auto
  from ms(2,3) have l: "length ms = 1" by (cases ms) auto
  have run: "submitBatchReviewComments ?w ?rs []
     = (Inr (),
        [Fetch At_getPullRequestDiff GetPullDiff (Response 200 example_diff),
         Fetch At_getHeadCommitSha GetPullJson (Response 200 ''4f2a9c1''),
         Fetch At_submitLineCommentsInBatches (PostReview ''4f2a9c1'' [?c]) Throws,
         Log Warn, Tally 0 1,
         Fetch At_submitReviewSummary (PostIssueComment (finalSummaryText 1 1 1 0 0)) (Response 201 [])])"
    by (simp add: submitBatchReviewComments_def submitBatchReviewComments_body_def forge_diff
        forge_head example_index plan_one_line_issue deliver_plan_def submitReviewSummary_def
        submitLineCommentsInBatches_def batches_single submit_batch_def
        submitFinalSummary_def fetch_eq ok_def)
  with ms(1) have "accepted (snd (last ms))" by (auto simp: accepted_def ok_def)
  with ms l have 1: "\<exists>ms. top_marks (snd (submitBatchReviewComments ?w ?rs [])) = ms
        \<and> map fst ms = [finalSummaryText 1 1 1 0 0]
        \<and> list_all (\<lambda>m. accepted (snd m)) (butlast ms)
        \<and> returned (fst (submitBatchReviewComments ?w ?rs []))" by simp
  from t have 2: "failures_logged (snd (submitBatchReviewComments ?w ?rs []))" by auto
  from t obtain qs where qs: "review_marks (snd (submitBatchReviewComments ?w ?rs [])) = qs"
    "tallies (snd (submitBatchReviewComments ?w ?rs [])) = [(accepted_total qs, failed_total qs)]"
    unfolding p by auto
  from qs(1) run have "qs = [BatchSent ''4f2a9c1'' [?c] Throws]" by simp
  then have "accepted_total qs = 0" "failed_total qs = 1"
    by (simp_all add: accepted_total_def failed_total_def accepted_def)
  with qs(2) have 3: "tallies (snd (submitBatchReviewComments ?w ?rs [])) = [(0, 1)]" by simp
  have "fst (submitBatchReviewComments ?v ?gs []) = Inl (ApiError 500 ''Server Error'')"
    by (simp add: submitBatchReviewComments_def submitBatchReviewComments_body_def forge_diff
        forge_head example_index plan_one_general_issue deliver_plan_def submitReviewSummary_def
        fetch_eq ok_def)
  then have "\<not> returned (fst (submitBatchReviewComments ?v ?gs []))" by (simp add: returned_def)
  with top_level_failure_stops_the_run[OF d(2) h(2), of ?gs]
  have 4: "\<exists>h. snd (submitBatchReviewComments ?v ?gs []) = h @ [Log Err] \<and> ends_refused h"
    by blast
  from 1 2 3 4 show ?thesis by blast
qed

text \<open>The outcome of an individual submission changes no counter: a batch of two answered
  with status 422 is counted as two failures, whether its individual submissions are all
  accepted or one of them is refused.\<close>

lemma fallback_outcome_changes_no_counter:
  "tallies (snd (submitBatchReviewComments (forge picky (Response 201 []))
              [app_result [line_issue 2 ''Unused variable'', line_issue 3 ''Missing check'']] []))
     = [(0, 2)]
   \<and> tallies (snd (submitBatchReviewComments
              (forge (\<lambda>cs. case cs of [c] \<Rightarrow> Response 200 []
                                     | _ \<Rightarrow> Response 422 ''Unprocessable Entity'')
                     (Response 201 []))
              [app_result [line_issue 2 ''Unused variable'', line_issue 3 ''Missing check'']] []))
     = [(0, 2)]"
  by (simp add: submitBatchReviewComments_def submitBatchReviewComments_body_def forge_diff
      forge_head example_index plan_two_line_issues deliver_plan_def submitReviewSummary_def
      submitLineCommentsInBatches_def batches_single submit_batch_def picky_def
      submitFinalSummary_def fetch_eq ok_def)

text \<open>The claim as stated fails: when the forge refuses the comment of a file group, the
  run throws and its only top-level comment is that refused one; the final summary is
  never sent.\<close>

theorem file_comment_rejection_loses_summary:
  "fst (submitBatchReviewComments (forge (\<lambda>cs. Response 200 []) (Response 500 ''Server Error''))
          [app_result [general_issue ''Add tests'']] [])
     = Inl (ApiError 500 ''Server Error'')
   \<and> top_marks (snd (submitBatchReviewComments
                       (forge (\<lambda>cs. Response 200 []) (Response 500 ''Server Error''))
                       [app_result [general_issue ''Add tests'']] []))
     = [(formatFileLevelComment ''src/app.ts'' [general_issue ''Add tests''],
         Response 500 ''Server Error'')]
   \<and> formatFileLevelComment ''src/app.ts'' [general_issue ''Add tests'']
       \<noteq> finalSummaryText 1 1 0 1 0"
proof -
  have "formatFileLevelComment ''src/app.ts'' [general_issue ''Add tests'']
       \<noteq> finalSummaryText 1 1 0 1 0"
    by (simp add: formatFileLevelComment_def finalSummaryText_def page_heading_def summary_heading_def)
  moreover have "submitBatchReviewComments (forge (\<lambda>cs. Response 200 []) (Response 500 ''Server Error''))
          [app_result [general_issue ''Add tests'']] []
     = (Inl (ApiError 500 ''Server Error''),
        [Fetch At_getPullRequestDiff GetPullDiff (Response 200 example_diff),
         Fetch At_getHeadCommitSha GetPullJson (Response 200 ''4f2a9c1''),
         Log Warn,
         Fetch At_submitReviewSummary
           (PostIssueComment (formatFileLevelComment ''src/app.ts'' [general_issue ''Add tests'']))
           (Response 500 ''Server Error''),
         Log Err, Log Err])"
    by (simp add: submitBatchReviewComments_def submitBatchReviewComments_body_def forge_diff
        forge_head example_index plan_one_general_issue deliver_plan_def submitReviewSummary_def
        fetch_eq ok_def)
  ultimately show ?thesis by simp
qed

text \<open>
  C3, as the code has it. With the diff and the head commit fetched, a run that returns
  normally has posted the final summary as its last top-level comment, and the forge
  accepted it. Its text gives the number of results, the number of all findings, and
  three numbers taken from the plan: the line comments planned, the file groups, and
  the skipped findings. They do not depend on what was delivered.
\<close>

theorem summary_reports_planned_counts:
  assumes "fst (getPullRequestDiff w tr) = Inr diffText"
    and "fst (getHeadCommitSha w (snd (getPullRequestDiff w tr))) = Inr commit"
    and "returned (fst (submitBatchReviewComments w results tr))"
  shows "\<exists>out. accepted out
          \<and> last (top_marks (snd (submitBatchReviewComments w results tr)))
              = (finalSummaryText (length results) (total_issues results)
                   (length (lineComments (prepareComments results (parseDiffPositionMap diffText))))
                   (length (fileComments (prepareComments results (parseDiffPositionMap diffText))))
                   (length (skippedComments (prepareComments results (parseDiffPositionMap diffText)))),
                 out)"
proof -
  let ?plan = "prepareComments results (parseDiffPositionMap diffText)"
  let ?exp = "expected_top_bodies results ?plan"
  from pipeline_views(3)[OF assms(1,2), of results] obtain ms where ms:
    "top_marks (snd (submitBatchReviewComments w results tr)) = top_marks tr @ ms"
    "delivery ?exp ms (returned (fst (submitBatchReviewComments w results tr)))" by blast
  from delivery_facts[OF ms(2)] assms(3) have f:
    "length ms = length ?exp" "map fst ms = take (length ms) ?exp"
    "list_all (\<lambda>m. accepted (snd m)) ms" by blast+
  from f(1) expected_nonempty[of results ?plan] have ne: "ms \<noteq> []" by auto
  from f(1,2) have "map fst ms = ?exp" by simp
  then have "last (map fst ms) = last ?exp" by simp
  with ne have "fst (last ms) = last ?exp" by (simp add: last_map)
  moreover from ne f(3) have "accepted (snd (last ms))" by (simp add: list_all_iff)
  moreover from ne ms(1) have "last (top_marks (snd (submitBatchReviewComments w results tr))) = last ms"
    by simp
  ultimately show ?thesis by (metis last_expected prod.collapse)
qed

theorem summary_reports_planned_counts_witness:
  "\<exists>out. accepted out
     \<and> last (top_marks (snd (submitBatchReviewComments
                               (forge (\<lambda>cs. Response 200 []) (Response 201 []))
                               [app_result [line_issue 2 ''Unused variable'']] [])))
         = (finalSummaryText 1 1 1 0 0, out)"
proof -
  let ?w = "forge (\<lambda>cs. Response 200 []) (Response 201 [])"
  let ?rs = "[app_result [line_issue 2 ''Unused variable'']]"
  have d: "fst (getPullRequestDiff ?w []) = Inr example_diff" by (simp add: forge_diff)
  have h: "fst (getHeadCommitSha ?w (snd (getPullRequestDiff ?w []))) = Inr ''4f2a9c1''"
    by (simp add: forge_diff forge_head)
  have r: "returned (fst (submitBatchReviewComments ?w ?rs []))"
    by (simp add: submitBatchReviewComments_def submitBatchReviewComments_body_def forge_diff
        forge_head example_index plan_one_line_issue deliver_plan_def submitReviewSummary_def
        submitLineCommentsInBatches_def batches_single submit_batch_def
        submitFinalSummary_def fetch_eq ok_def returned_def)
  from summary_reports_planned_counts[OF d h r] show ?thesis
    by (simp add: example_index plan_one_line_issue)
qed

text \<open>The claim as stated fails: when the forge refuses the only batch, no line comment is
  delivered and the tally of the batch stage is 0 delivered and 1 failed, yet the summary
  gives 1 as the number of line comments.\<close>

theorem rejected_batch_still_counted_in_summary:
  "returned (fst (submitBatchReviewComments
                    (forge (\<lambda>cs. Response 500 ''Server Error'') (Response 201 []))
                    [app_result [line_issue 2 ''Unused variable'']] []))
   \<and> delivered_line_comments (snd (submitBatchReviewComments
                    (forge (\<lambda>cs. Response 500 ''Server Error'') (Response 201 []))
                    [app_result [line_issue 2 ''Unused variable'']] [])) = 0
   \<and> tallies (snd (submitBatchReviewComments
                    (forge (\<lambda>cs. Response 500 ''Server Error'') (Response 201 []))
                    [app_result [line_issue 2 ''Unused variable'']] [])) = [(0, 1)]
   \<and> last (top_marks (snd (submitBatchReviewComments
                    (forge (\<lambda>cs. Response 500 ''Server Error'') (Response 201 []))
                    [app_result [line_issue 2 ''Unused variable'']] [])))
       = (finalSummaryText 1 1 1 0 0, Response 201 [])
   \<and> finalSummaryText 1 1 1 0 0 \<noteq> finalSummaryText 1 1 0 0 0"
proof -
  have "finalSummaryText 1 1 1 0 0 \<noteq> finalSummaryText 1 1 0 0 0"
    by (simp add: finalSummaryText_def)
  moreover have "submitBatchReviewComments
                    (forge (\<lambda>cs. Response 500 ''Server Error'') (Response 201 []))
                    [app_result [line_issue 2 ''Unused variable'']] []
     = (Inr (),
        [Fetch At_getPullRequestDiff GetPullDiff (Response 200 example_diff),
         Fetch At_getHeadCommitSha GetPullJson (Response 200 ''4f2a9c1''),
         Fetch At_submitLineCommentsInBatches
           (PostReview ''4f2a9c1'' [\<lparr>c_path = ''src/app.ts'', c_position = 1,
                           c_body = formatIssueComment (line_issue 2 ''Unused variable'')\<rparr>])
           (Response 500 ''Server Error''),
         Log Warn, Tally 0 1,
         Fetch At_submitReviewSummary (PostIssueComment (finalSummaryText 1 1 1 0 0)) (Response 201 [])])"
    by (simp add: submitBatchReviewComments_def submitBatchReviewComments_body_def forge_diff
        forge_head example_index plan_one_line_issue deliver_plan_def submitReviewSummary_def
        submitLineCommentsInBatches_def batches_single submit_batch_def
        submitFinalSummary_def fetch_eq ok_def)
  ultimately show ?thesis
    by (simp add: returned_def delivered_line_comments_def accepted_def ok_def)
qed

subsection \<open>The single comment\<close>



end
